theory Spec2Isabelle
  imports Complex_Main "HOL-Library.Word"
begin

section \<open>Gesture confirmation engine (vision\_handler.py)\<close>

text \<open>
  Time stamps are the values of \<^verbatim>\<open>time.time()\<close>; they are modelled as real numbers and
  every function that reads the clock takes the value read as an argument. Gesture types
  are the lower-cased category names of the classifier, kept as strings. The Russian output
  texts of the lookup table are written in Latin transliteration.
\<close>

record gesture =
  gtype :: string
  hand :: string
  detected_at :: real

record vision_config =
  real_time_analysis :: bool
  gesture_confirmation_time :: real
  gesture_inactivity_timeout :: real

record analysis_result =
  timestamp :: real
  gestures :: "gesture list"

text \<open>
  The fields of \<^verbatim>\<open>VisionHandler\<close> that the confirmation logic reads or writes.
  \<open>is_recording\<close> is the flag of the camera handler that keeps the capture loop alive,
  \<open>gesture_callback\<close> tells whether a callback is installed, \<open>gesture_text_queue\<close> is the
  queue the installed callback of web\_app.py appends to, and \<open>confirmed_log\<close> is the
  sequence of confirmation lines printed by \<^verbatim>\<open>_check_gesture_confirmation\<close>
  (label and mapped text).
\<close>

record vision_handler =
  is_vision_active :: bool
  is_paused :: bool
  analysis_results :: "analysis_result list"
  current_gestures :: "gesture list"
  gesture_buffer :: "gesture list"
  last_gesture_time :: real
  last_confirmed_gesture :: "string option"
  gesture_callback :: bool
  gesture_text_queue :: "string list"
  confirmed_log :: "(string \<times> string) list"
  is_recording :: bool

text \<open>\<^verbatim>\<open>VisionHandler.__init__\<close>, read at clock value \<open>now\<close>.\<close>

definition init_vision :: "real \<Rightarrow> vision_handler" where
  "init_vision now =
     \<lparr> is_vision_active = False, is_paused = False, analysis_results = [],
       current_gestures = [], gesture_buffer = [], last_gesture_time = now,
       last_confirmed_gesture = None, gesture_callback = False,
       gesture_text_queue = [], confirmed_log = [], is_recording = False \<rparr>"

text \<open>
  The dictionary \<^verbatim>\<open>gesture_counts\<close> is an association list in insertion order, because
  \<^verbatim>\<open>max(gesture_counts, key=gesture_counts.get)\<close> returns the first key, in insertion
  order, whose count is maximal.
\<close>

fun count_gesture :: "(string \<times> nat) list \<Rightarrow> string \<Rightarrow> (string \<times> nat) list" where
  "count_gesture [] t = [(t, 1)]"
| "count_gesture ((k, n) # kvs) t =
     (if k = t then (k, n + 1) # kvs else (k, n) # count_gesture kvs t)"

definition gesture_counts :: "gesture list \<Rightarrow> (string \<times> nat) list" where
  "gesture_counts buf = foldl count_gesture [] (map gtype buf)"

definition most_common_gesture :: "(string \<times> nat) list \<Rightarrow> (string \<times> nat) option" where
  "most_common_gesture kvs =
     (case kvs of
        [] \<Rightarrow> None
      | kv # rest \<Rightarrow> Some (foldl (\<lambda>best c. if snd best < snd c then c else best) kv rest))"

definition gesture_text_map :: "string \<Rightarrow> string option" where
  "gesture_text_map t =
     (if t = ''open_palm'' then Some ''Privet''
      else if t = ''victory'' then Some ''Pobeda''
      else if t = ''thumb_up'' then Some ''Super''
      else if t = ''pointing_up'' then Some ''Vnimanie''
      else None)"

definition check_gesture_confirmation :: "vision_handler \<Rightarrow> vision_handler" where
  "check_gesture_confirmation st =
     (if gesture_buffer st = [] then st
      else
        (case most_common_gesture (gesture_counts (gesture_buffer st)) of
           None \<Rightarrow> st
         | Some (label, count) \<Rightarrow>
             if 3 \<le> count \<and> Some label \<noteq> last_confirmed_gesture st then
               (case gesture_text_map label of
                  None \<Rightarrow> st
                | Some confirmed_text \<Rightarrow>
                    st\<lparr> confirmed_log := confirmed_log st @ [(label, confirmed_text)],
                        last_confirmed_gesture := Some label,
                        gesture_text_queue :=
                          (if gesture_callback st
                           then gesture_text_queue st @ [confirmed_text]
                           else gesture_text_queue st),
                        gesture_buffer := [] \<rparr>)
             else st))"

text \<open>
  \<^verbatim>\<open>start_real_time_analysis\<close>: \<open>camera_ok\<close> says whether the camera handle exists,
  \<open>cb\<close> whether a callback was passed. The result flag is the method's return value.
\<close>

definition start_real_time_analysis ::
  "vision_config \<Rightarrow> vision_handler \<Rightarrow> bool \<Rightarrow> bool \<Rightarrow> real \<Rightarrow> vision_handler \<times> bool" where
  "start_real_time_analysis cfg st camera_ok cb now =
     (if \<not> real_time_analysis cfg then (st, False)
      else if \<not> camera_ok then (st, False)
      else
        (st\<lparr> gesture_callback := (if cb then True else gesture_callback st),
             gesture_buffer := [],
             last_gesture_time := now,
             last_confirmed_gesture := None,
             is_vision_active := True,
             is_recording := True \<rparr>, True))"

definition pause_analysis :: "vision_handler \<Rightarrow> vision_handler" where
  "pause_analysis st = st\<lparr> is_paused := True \<rparr>"

definition resume_analysis :: "vision_handler \<Rightarrow> real \<Rightarrow> vision_handler" where
  "resume_analysis st now =
     (if is_vision_active st
      then st\<lparr> is_paused := False, last_gesture_time := now, gesture_buffer := [] \<rparr>
      else st)"

definition stop_real_time_analysis :: "vision_handler \<Rightarrow> vision_handler" where
  "stop_real_time_analysis st =
     st\<lparr> is_vision_active := False, is_paused := False, is_recording := False \<rparr>"

text \<open>
  \<^verbatim>\<open>_frame_analysis_callback\<close>: \<open>gs\<close> is what the classifier returns for the frame
  (the empty list when recognition is disabled or rate-limited), \<open>now\<close> the clock value
  read on entry. The loop over \<open>gs\<close> stamps every observation and appends it to the buffer.
\<close>

definition frame_analysis_callback ::
  "vision_config \<Rightarrow> vision_handler \<Rightarrow> gesture list \<Rightarrow> real \<Rightarrow> vision_handler" where
  "frame_analysis_callback cfg st gs now =
     (if is_paused st then st
      else if now - last_gesture_time st > gesture_inactivity_timeout cfg
      then stop_real_time_analysis st
      else if gs = [] then st\<lparr> current_gestures := [] \<rparr>
      else
        (let stamped = map (\<lambda>g. g\<lparr> detected_at := now \<rparr>) gs;
             st1 = st\<lparr> current_gestures := stamped,
                       last_gesture_time := now,
                       gesture_buffer := gesture_buffer st @ stamped \<rparr>;
             st2 = st1\<lparr> gesture_buffer :=
                         filter (\<lambda>g. now - detected_at g \<le> gesture_confirmation_time cfg)
                           (gesture_buffer st1) \<rparr>;
             st3 = check_gesture_confirmation st2;
             st4 = st3\<lparr> analysis_results :=
                         analysis_results st3 @ [\<lparr> timestamp = now, gestures = stamped \<rparr>] \<rparr>
         in if 20 < length (analysis_results st4)
            then st4\<lparr> analysis_results := tl (analysis_results st4) \<rparr>
            else st4))"

text \<open>
  \<^verbatim>\<open>get_recent_analysis\<close> slices with \<^verbatim>\<open>[-count:]\<close>: the last \<open>count\<close> entries for a
  positive count, the whole list for 0, and the list without its first \<open>-count\<close> entries
  for a negative one.
\<close>

definition get_recent_analysis :: "vision_handler \<Rightarrow> int \<Rightarrow> analysis_result list" where
  "get_recent_analysis st count =
     (if analysis_results st = [] then []
      else if 0 < count
      then drop (length (analysis_results st) - nat count) (analysis_results st)
      else drop (nat (- count)) (analysis_results st))"

text \<open>
  What can happen to a handler: the camera thread delivers a frame (only while the capture
  loop is alive), or another thread calls one of the public methods.
\<close>

datatype vision_event =
    Start bool bool real
  | Frame "gesture list" real
  | Pause
  | Resume real
  | Stop

fun is_Start :: "vision_event \<Rightarrow> bool" where
  "is_Start (Start _ _ _) = True"
| "is_Start _ = False"

fun is_Frame :: "vision_event \<Rightarrow> bool" where
  "is_Frame (Frame _ _) = True"
| "is_Frame _ = False"

fun vision_step :: "vision_config \<Rightarrow> vision_handler \<Rightarrow> vision_event \<Rightarrow> vision_handler" where
  "vision_step cfg st (Start camera_ok cb now) =
     fst (start_real_time_analysis cfg st camera_ok cb now)"
| "vision_step cfg st (Frame gs now) =
     (if is_recording st then frame_analysis_callback cfg st gs now else st)"
| "vision_step cfg st Pause = pause_analysis st"
| "vision_step cfg st (Resume now) = resume_analysis st now"
| "vision_step cfg st Stop = stop_real_time_analysis st"

definition vision_run :: "vision_config \<Rightarrow> vision_handler \<Rightarrow> vision_event list \<Rightarrow> vision_handler" where
  "vision_run cfg st evs = foldl (vision_step cfg) st evs"

text \<open>The values of config.py.\<close>

definition app_vision_config :: vision_config where
  "app_vision_config =
     \<lparr> real_time_analysis = True, gesture_confirmation_time = 3 / 2,
       gesture_inactivity_timeout = 7 \<rparr>"

subsection \<open>Turn taking in the chat handler (web\_app.py)\<close>

text \<open>
  The chat handler pauses gesture analysis before generation and resumes it in the
  \<^verbatim>\<open>finally\<close> block of the response generator. The flag \<^verbatim>\<open>gesture_was_active\<close> is a
  local of the request; \<open>begin_generation\<close> returns it and \<open>end_generation\<close> takes it.
\<close>

definition begin_generation :: "vision_handler \<Rightarrow> bool \<times> vision_handler" where
  "begin_generation st =
     (let gesture_was_active = (is_vision_active st \<and> \<not> is_paused st)
      in (gesture_was_active, if gesture_was_active then pause_analysis st else st))"

definition end_generation :: "bool \<Rightarrow> vision_handler \<Rightarrow> real \<Rightarrow> vision_handler" where
  "end_generation gesture_was_active st now =
     (if gesture_was_active then resume_analysis st now else st)"

section \<open>Voice activity segmenter (audio\_handler.py)\<close>

text \<open>
  A frame is one chunk read from the stream, the samples of
  \<^verbatim>\<open>np.frombuffer(audio_data, dtype=np.int16)\<close>. \<^verbatim>\<open>np.abs\<close> on int16 wraps at the least
  value, and the mean of an empty array is not a number, for which every comparison is
  false. The mean itself is taken over the reals.
\<close>

type_synonym frame = "16 word list"

definition abs16 :: "16 word \<Rightarrow> 16 word" where
  "abs16 s = (if sint s < 0 then - s else s)"

definition volume :: "frame \<Rightarrow> real option" where
  "volume f =
     (if f = [] then None
      else Some (real_of_int (sum_list (map (\<lambda>s. sint (abs16 s)) f)) / real (length f)))"

definition is_loud :: "real \<Rightarrow> frame \<Rightarrow> bool" where
  "is_loud thr f = (case volume f of None \<Rightarrow> False | Some v \<Rightarrow> thr < v)"

text \<open>
  The environment of a handler: the settings read from config.py, whether a recognizer
  object exists, whether numpy and pyaudio were imported, and which of the device calls
  \<^verbatim>\<open>stop_stream\<close>, \<^verbatim>\<open>close\<close> and \<^verbatim>\<open>terminate\<close> raise.
\<close>

record audio_env =
  stt_enabled :: bool
  recognizer_available :: bool
  libraries_available :: bool
  volume_threshold :: real
  silence_threshold :: real
  inactivity_timeout :: real
  stop_stream_raises :: bool
  close_raises :: bool
  terminate_raises :: bool

text \<open>
  What the recognition call does with a segment: a text (possibly empty),
  \<^verbatim>\<open>sr.UnknownValueError\<close>, \<^verbatim>\<open>sr.RequestError\<close>, or any other exception.
\<close>

datatype recognition = Recognized string | Unknown_value | Request_error | Other_exception

text \<open>
  The calls a handler makes: \<open>Process\<close> is an invocation of
  \<^verbatim>\<open>_process_recorded_audio\<close> with the frame buffer it finds, \<open>Recognize\<close> the call of the
  speech-to-text service with the assembled segment, the others are the device calls of
  \<^verbatim>\<open>stop_listening\<close>.
\<close>

datatype audio_event =
    Process "frame list"
  | Recognize "frame list"
  | Stop_stream
  | Close_stream
  | Terminate_pyaudio

record audio_handler =
  is_listening :: bool
  audio_stream :: bool
  pyaudio_instance :: bool
  audio_frames :: "frame list"
  last_speech_time :: "real option"
  recognized_text_queue :: "string list"
  call_log :: "audio_event list"

definition init_audio :: audio_handler where
  "init_audio =
     \<lparr> is_listening = False, audio_stream = False, pyaudio_instance = False,
       audio_frames = [], last_speech_time = None, recognized_text_queue = [],
       call_log = [] \<rparr>"

text \<open>The locals of \<^verbatim>\<open>recording_worker\<close>.\<close>

record worker_locals =
  silence_start :: "real option"
  has_speech :: bool

definition fresh_worker :: worker_locals where
  "fresh_worker = \<lparr> silence_start = None, has_speech = False \<rparr>"

text \<open>
  \<^verbatim>\<open>_process_recorded_audio\<close>. The callback \<^verbatim>\<open>_on_text_recognized\<close> is the one web\_app.py
  installs, which appends the text to its queue. No exception leaves the method.
\<close>

definition process_recorded_audio ::
  "audio_env \<Rightarrow> (frame list \<Rightarrow> recognition) \<Rightarrow> audio_handler \<Rightarrow> audio_handler" where
  "process_recorded_audio env recognize st =
     (let st0 = st\<lparr> call_log := call_log st @ [Process (audio_frames st)] \<rparr>
      in if audio_frames st = [] \<or> length (audio_frames st) < 10 then st0
         else if recognizer_available env then
           (let st1 = st0\<lparr> call_log := call_log st0 @ [Recognize (audio_frames st)] \<rparr>
            in case recognize (audio_frames st) of
                 Recognized text \<Rightarrow>
                   (if text \<noteq> []
                    then st1\<lparr> recognized_text_queue := recognized_text_queue st1 @ [text] \<rparr>
                    else st1)
               | Unknown_value \<Rightarrow> st1
               | Request_error \<Rightarrow> st1
               | Other_exception \<Rightarrow> st1)
         else st0)"

text \<open>
  \<^verbatim>\<open>stop_listening\<close> with its return value. The device calls stand in one
  \<^verbatim>\<open>try\<close>: the first that raises ends it, the assignments after it are not made and
  the method returns \<^verbatim>\<open>None\<close>. The call log records a call also when it raises.
\<close>

definition stop_listening :: "audio_env \<Rightarrow> audio_handler \<Rightarrow> audio_handler \<times> string option" where
  "stop_listening env st =
     (if \<not> is_listening st then (st, None)
      else
        (let st1 = st\<lparr> is_listening := False \<rparr>
         in if audio_stream st1 \<and> stop_stream_raises env
            then (st1\<lparr> call_log := call_log st1 @ [Stop_stream] \<rparr>, None)
            else if audio_stream st1 \<and> close_raises env
            then (st1\<lparr> call_log := call_log st1 @ [Stop_stream, Close_stream] \<rparr>, None)
            else
              (let st2 = (if audio_stream st1
                          then st1\<lparr> call_log := call_log st1 @ [Stop_stream, Close_stream],
                                    audio_stream := False \<rparr>
                          else st1)
               in if pyaudio_instance st2 \<and> terminate_raises env
                  then (st2\<lparr> call_log := call_log st2 @ [Terminate_pyaudio] \<rparr>, None)
                  else
                    (let st3 = (if pyaudio_instance st2
                                then st2\<lparr> call_log := call_log st2 @ [Terminate_pyaudio],
                                          pyaudio_instance := False \<rparr>
                                else st2)
                     in (st3, Some ''Zapis ostanovlena'')))))"

datatype start_status = Status_error | Already_listening | Started

text \<open>
  How the device answers \<^verbatim>\<open>start_listening\<close>: the stream opens, or the constructor
  \<^verbatim>\<open>pyaudio.PyAudio()\<close> raises, or the constructor succeeds and \<^verbatim>\<open>open\<close> raises.
\<close>

datatype device_open = Device_ok | PyAudio_fails | Open_fails

text \<open>
  \<^verbatim>\<open>start_listening\<close>. On success the worker thread starts with fresh locals. When
  \<^verbatim>\<open>open\<close> raises, the PyAudio instance made before it stays in the handler.
\<close>

definition start_listening ::
  "audio_env \<Rightarrow> audio_handler \<Rightarrow> device_open \<Rightarrow> real \<Rightarrow> audio_handler \<times> start_status" where
  "start_listening env st device now =
     (if \<not> stt_enabled env \<or> \<not> recognizer_available env then (st, Status_error)
      else if is_listening st then (st, Already_listening)
      else if \<not> libraries_available env then (st, Status_error)
      else
        (let st1 = st\<lparr> is_listening := True, audio_frames := [], last_speech_time := Some now \<rparr>
         in case device of
              Device_ok \<Rightarrow> (st1\<lparr> pyaudio_instance := True, audio_stream := True \<rparr>, Started)
            | PyAudio_fails \<Rightarrow> (st1\<lparr> is_listening := False \<rparr>, Status_error)
            | Open_fails \<Rightarrow>
                (st1\<lparr> pyaudio_instance := True, is_listening := False \<rparr>, Status_error)))"

datatype read_result = Read_frame frame | Read_error

datatype loop_status = Running | Exited

text \<open>
  One pass through the body of the \<^verbatim>\<open>while\<close> loop: the stream read gives a frame or
  raises, \<open>now\<close> is the clock value read after it. The test \<^verbatim>\<open>if silence_start:\<close> is
  Python truthiness, false for \<^verbatim>\<open>None\<close> and for \<open>0.0\<close>. Any exception in the body,
  also the subtraction from an unset \<^verbatim>\<open>last_speech_time\<close>, ends the loop.
\<close>

definition worker_iteration ::
  "audio_env \<Rightarrow> (frame list \<Rightarrow> recognition) \<Rightarrow> audio_handler \<times> worker_locals \<Rightarrow>
   read_result \<times> real \<Rightarrow> (audio_handler \<times> worker_locals) \<times> loop_status" where
  "worker_iteration env recognize s inp =
     (case inp of
        (Read_error, now) \<Rightarrow> (s, Exited)
      | (Read_frame f, now) \<Rightarrow>
          (let st = fst s; w = snd s;
               st1 = st\<lparr> audio_frames := audio_frames st @ [f] \<rparr>;
               s2 =
                 (if is_loud (volume_threshold env) f
                  then (st1\<lparr> last_speech_time := Some now \<rparr>,
                        w\<lparr> has_speech := True, silence_start := None \<rparr>)
                  else
                    (let w1 = (if has_speech w \<and> silence_start w = None
                               then w\<lparr> silence_start := Some now \<rparr> else w)
                     in case silence_start w1 of
                          None \<Rightarrow> (st1, w1)
                        | Some ss \<Rightarrow>
                            if ss \<noteq> 0 \<and> silence_threshold env \<le> now - ss \<and> has_speech w1
                            then ((process_recorded_audio env recognize st1)
                                    \<lparr> audio_frames := [], last_speech_time := Some now \<rparr>,
                                  w1\<lparr> has_speech := False, silence_start := None \<rparr>)
                            else (st1, w1)))
           in case last_speech_time (fst s2) of
                None \<Rightarrow> (s2, Exited)
              | Some lst \<Rightarrow>
                  if inactivity_timeout env < now - lst
                  then ((fst (stop_listening env (fst s2)), snd s2), Exited)
                  else (s2, Running)))"

text \<open>
  The loop over the reads the stream delivers. With the input used up, the loop is still
  running exactly when \<^verbatim>\<open>is_listening\<close> holds at its head.
\<close>

fun recording_worker ::
  "audio_env \<Rightarrow> (frame list \<Rightarrow> recognition) \<Rightarrow> audio_handler \<times> worker_locals \<Rightarrow>
   (read_result \<times> real) list \<Rightarrow> (audio_handler \<times> worker_locals) \<times> loop_status" where
  "recording_worker env recognize s [] = (s, if is_listening (fst s) then Running else Exited)"
| "recording_worker env recognize s (x # xs) =
     (if \<not> is_listening (fst s) then (s, Exited)
      else
        (case worker_iteration env recognize s x of
           (s', Exited) \<Rightarrow> (s', Exited)
         | (s', Running) \<Rightarrow> recording_worker env recognize s' xs))"

fun handed_off :: "audio_event list \<Rightarrow> frame list list" where
  "handed_off [] = []"
| "handed_off (Process fs # evs) = fs # handed_off evs"
| "handed_off (_ # evs) = handed_off evs"

fun emitted :: "audio_event list \<Rightarrow> frame list list" where
  "emitted [] = []"
| "emitted (Recognize fs # evs) = fs # emitted evs"
| "emitted (_ # evs) = emitted evs"

text \<open>
  An input of the loop is loud when the read gives a frame whose volume exceeds the
  threshold, and quiet when it gives a frame whose volume does not.
\<close>

definition loud_input :: "audio_env \<Rightarrow> read_result \<times> real \<Rightarrow> bool" where
  "loud_input env x =
     (case fst x of Read_frame f \<Rightarrow> is_loud (volume_threshold env) f | Read_error \<Rightarrow> False)"

definition quiet_input :: "audio_env \<Rightarrow> read_result \<times> real \<Rightarrow> bool" where
  "quiet_input env x =
     (case fst x of Read_frame f \<Rightarrow> \<not> is_loud (volume_threshold env) f | Read_error \<Rightarrow> False)"

fun frames_of :: "(read_result \<times> real) list \<Rightarrow> frame list" where
  "frames_of [] = []"
| "frames_of ((Read_frame f, _) # xs) = f # frames_of xs"
| "frames_of ((Read_error, _) # xs) = frames_of xs"

text \<open>
  The condition of the specification for an emission at the input \<open>x\<close> that follows the
  inputs \<open>xs\<close>, in its words: speech was detected (some earlier input is loud), and then
  silence persisted for at least the silence threshold (\<open>x\<close> and the inputs since the last
  loud one are quiet, and the time from the first of them to \<open>x\<close> reaches the threshold,
  which it did not reach at an earlier input).
\<close>

definition trailing_silence ::
  "audio_env \<Rightarrow> (read_result \<times> real) list \<Rightarrow> (read_result \<times> real) list" where
  "trailing_silence env xs = rev (takeWhile (quiet_input env) (rev xs))"

definition silence_confirmed ::
  "audio_env \<Rightarrow> (read_result \<times> real) list \<Rightarrow> read_result \<times> real \<Rightarrow> bool" where
  "silence_confirmed env xs x =
     (quiet_input env x \<and> list_ex (loud_input env) xs
      \<and> (let s = snd (hd (trailing_silence env xs @ [x]))
         in silence_threshold env \<le> snd x - s
            \<and> list_all (\<lambda>y. snd y - s < silence_threshold env) (trailing_silence env xs)))"

text \<open>The values of config.py, with a recognizer present and working device calls.\<close>

definition app_audio_env :: audio_env where
  "app_audio_env =
     \<lparr> stt_enabled = True, recognizer_available = True, libraries_available = True,
       volume_threshold = 500,
       silence_threshold = 2, inactivity_timeout = 5, stop_stream_raises = False,
       close_raises = False, terminate_raises = False \<rparr>"

section \<open>Concrete handlers and inputs\<close>

definition open_palm :: gesture where
  "open_palm = \<lparr> gtype = ''open_palm'', hand = ''right'', detected_at = 0 \<rparr>"

definition closed_fist :: gesture where
  "closed_fist = \<lparr> gtype = ''closed_fist'', hand = ''right'', detected_at = 0 \<rparr>"

definition victory :: gesture where
  "victory = \<lparr> gtype = ''victory'', hand = ''left'', detected_at = 0 \<rparr>"

text \<open>A handler whose analysis was started at time 0 with the callback of web\_app.py.\<close>

definition started_handler :: vision_handler where
  "started_handler = fst (start_real_time_analysis app_vision_config (init_vision 0) True True 0)"

text \<open>The same handler after three frames with an open palm: the palm is confirmed.\<close>

definition confirmed_handler :: vision_handler where
  "confirmed_handler =
     vision_run app_vision_config started_handler
       [Frame [open_palm] (1 / 10), Frame [open_palm] (2 / 10), Frame [open_palm] (3 / 10)]"

definition fist_handler :: vision_handler where
  "fist_handler = started_handler\<lparr> gesture_buffer := [closed_fist, closed_fist, closed_fist] \<rparr>"

definition palm_handler :: vision_handler where
  "palm_handler =
     started_handler\<lparr> gesture_buffer := [open_palm, open_palm, closed_fist, open_palm, open_palm] \<rparr>"

definition paused_handler :: vision_handler where
  "paused_handler = pause_analysis started_handler"

definition held_palm :: "vision_event list" where
  "held_palm =
     [Frame [open_palm] (51 / 10), Frame [open_palm] (52 / 10), Frame [open_palm] (53 / 10)]"

text \<open>
  After a resume at time 5: the palm still held for three frames, then four frames with a
  victory sign, then three frames with the palm again.
\<close>

definition resumed_session :: "vision_event list" where
  "resumed_session =
     held_palm @
     [Frame [victory] (54 / 10), Frame [victory] (55 / 10), Frame [victory] (56 / 10),
      Frame [victory] (57 / 10),
      Frame [open_palm] (58 / 10), Frame [open_palm] (59 / 10), Frame [open_palm] 6]"

definition gesture_session :: "vision_event list" where
  "gesture_session =
     [Frame [open_palm] (1 / 10), Frame [open_palm] (2 / 10), Frame [open_palm] (3 / 10),
      Frame [open_palm] (4 / 10), Frame [open_palm] (5 / 10), Frame [open_palm] (6 / 10),
      Pause, Resume 1,
      Frame [victory] (11 / 10), Frame [victory] (12 / 10), Frame [victory] (13 / 10)]"

subsection \<open>Audio inputs\<close>

text \<open>
  Reads at quarters of a second after the start of a session at time 100, and the handler
  and worker states of the scenario just before the silence is confirmed.
\<close>

definition silent_frame :: frame where "silent_frame = [0, 0]"

definition speech_frame :: frame where "speech_frame = [1000, - 1000]"

definition reads :: "frame \<Rightarrow> real list \<Rightarrow> (read_result \<times> real) list" where
  "reads f ks = map (\<lambda>k. (Read_frame f, 100 + k / 4)) ks"

definition leading_silence :: "(read_result \<times> real) list" where
  "leading_silence = reads silent_frame [1, 2, 3, 4, 5, 6, 7, 8, 9, 10, 11, 12]"

definition speech_second :: "(read_result \<times> real) list" where
  "speech_second = reads speech_frame [13, 14, 15, 16]"

definition first_silence :: "read_result \<times> real" where
  "first_silence = (Read_frame silent_frame, 100 + 17 / 4)"

definition waiting_silence :: "(read_result \<times> real) list" where
  "waiting_silence = reads silent_frame [18, 19, 20, 21, 22, 23, 24]"

definition trailing_rest :: "(read_result \<times> real) list" where
  "trailing_rest = reads silent_frame [26]"

definition scenario :: "(read_result \<times> real) list" where
  "scenario = leading_silence @ speech_second @ first_silence # waiting_silence
      @ (Read_frame silent_frame, 100 + 25 / 4) # trailing_rest"

definition text_recognizer :: "frame list \<Rightarrow> recognition" where
  "text_recognizer fs = Recognized ''privet''"

definition failing_recognizer :: "frame list \<Rightarrow> recognition" where
  "failing_recognizer fs = Request_error"

definition listening_handler :: audio_handler where
  "listening_handler = fst (start_listening app_audio_env init_audio Device_ok 100)"

definition utterance_prefix :: "(read_result \<times> real) list" where
  "utterance_prefix = leading_silence @ speech_second @ first_silence # waiting_silence"

definition prefix_frames :: "frame list" where
  "prefix_frames = replicate 12 silent_frame @ replicate 4 speech_frame @ replicate 8 silent_frame"

definition waiting_handler :: audio_handler where
  "waiting_handler = listening_handler\<lparr> audio_frames := prefix_frames, last_speech_time := Some 104 \<rparr>"

definition waiting_worker :: worker_locals where
  "waiting_worker = \<lparr> silence_start = Some (100 + 17 / 4), has_speech = True \<rparr>"

definition short_utterance :: "(read_result \<times> real) list" where
  "short_utterance = reads speech_frame [2, 4] @ reads silent_frame [6, 8, 10, 12]"

definition idle_reads :: "(read_result \<times> real) list" where
  "idle_reads = reads silent_frame [4, 12]"

text \<open>The same settings with a device whose \<^verbatim>\<open>stop_stream\<close> raises.\<close>

definition faulty_audio_env :: audio_env where
  "faulty_audio_env = app_audio_env\<lparr> stop_stream_raises := True \<rparr>"

section \<open>Properties of the gesture confirmation engine\<close>

lemmas vision_defs = vision_run_def init_vision_def app_vision_config_def
  start_real_time_analysis_def frame_analysis_callback_def check_gesture_confirmation_def
  gesture_counts_def most_common_gesture_def gesture_text_map_def pause_analysis_def
  resume_analysis_def stop_real_time_analysis_def Let_def

subsection \<open>Counting and the most frequent type\<close>

lemma map_of_count_gesture:
  "map_of (count_gesture kvs t) =
     (map_of kvs)(t \<mapsto> (case map_of kvs t of None \<Rightarrow> 1 | Some n \<Rightarrow> n + 1))"
  by (induction kvs t rule: count_gesture.induct) (auto simp: fun_eq_iff)

lemma keys_count_gesture: "fst ` set (count_gesture kvs t) = insert t (fst ` set kvs)"
  by (induction kvs t rule: count_gesture.induct) auto

lemma distinct_count_gesture:
  "distinct (map fst kvs) \<Longrightarrow> distinct (map fst (count_gesture kvs t))"
proof (induction kvs t rule: count_gesture.induct)
  case (1 t)
  then show ?case by simp
next
  case (2 k n kvs t)
  then show ?case
    using keys_count_gesture [of kvs t] by auto
qed

lemma distinct_foldl_count:
  "distinct (map fst acc) \<Longrightarrow> distinct (map fst (foldl count_gesture acc tys))"
  by (induction tys arbitrary: acc) (simp_all add: distinct_count_gesture)

lemma map_of_foldl_count:
  "map_of (foldl count_gesture acc tys) t =
     (case map_of acc t of
        None \<Rightarrow> if count_list tys t = 0 then None else Some (count_list tys t)
      | Some m \<Rightarrow> Some (m + count_list tys t))"
proof (induction tys arbitrary: acc)
  case Nil
  then show ?case by (simp split: option.splits)
next
  case (Cons a tys)
  show ?case
    by (simp add: Cons.IH map_of_count_gesture split: option.splits)
qed

lemma gesture_counts_member:
  "(l, c) \<in> set (gesture_counts buf) \<longleftrightarrow>
     c = count_list (map gtype buf) l \<and> 0 < c"
proof -
  have d: "distinct (map fst (gesture_counts buf))"
    by (simp add: gesture_counts_def distinct_foldl_count)
  have "(l, c) \<in> set (gesture_counts buf) \<longleftrightarrow> map_of (gesture_counts buf) l = Some c"
    using d by simp
  also have "\<dots> \<longleftrightarrow> c = count_list (map gtype buf) l \<and> 0 < c"
    by (auto simp add: gesture_counts_def map_of_foldl_count)
  finally show ?thesis .
qed

lemma foldl_best:
  fixes kv :: "string \<times> nat"
  shows "foldl (\<lambda>best c. if snd best < snd c then c else best) kv rest \<in> set (kv # rest)
   \<and> (\<forall>x\<in>set (kv # rest). snd x \<le> snd (foldl (\<lambda>best c. if snd best < snd c then c else best) kv rest))"
proof (induction rest arbitrary: kv)
  case Nil
  then show ?case by simp
next
  case (Cons a rest)
  show ?case
    using Cons.IH [of "if snd kv < snd a then a else kv"]
    by (auto split: if_splits)
qed

lemma most_common_gesture_max:
  assumes "most_common_gesture kvs = Some (l, c)"
  shows "(l, c) \<in> set kvs" and "\<And>k n. (k, n) \<in> set kvs \<Longrightarrow> n \<le> c"
proof -
  from assms obtain kv rest where kvs: "kvs = kv # rest"
    and best: "foldl (\<lambda>best c. if snd best < snd c then c else best) kv rest = (l, c)"
    by (auto simp add: most_common_gesture_def split: list.splits)
  from foldl_best [of kv rest] best kvs show "(l, c) \<in> set kvs" by simp
  fix k n assume "(k, n) \<in> set kvs"
  with foldl_best [of kv rest] best kvs show "n \<le> c" by fastforce
qed

lemma most_common_is_most_frequent:
  assumes "most_common_gesture (gesture_counts buf) = Some (l, c)"
  shows "c = count_list (map gtype buf) l" and "count_list (map gtype buf) t \<le> c"
proof -
  from most_common_gesture_max(1) [OF assms]
  show c: "c = count_list (map gtype buf) l"
    by (simp add: gesture_counts_member)
  show "count_list (map gtype buf) t \<le> c"
  proof (cases "count_list (map gtype buf) t = 0")
    case True
    then show ?thesis by simp
  next
    case False
    then have "(t, count_list (map gtype buf) t) \<in> set (gesture_counts buf)"
      by (simp add: gesture_counts_member)
    from most_common_gesture_max(2) [OF assms this] show ?thesis .
  qed
qed

subsection \<open>The confirmation check\<close>

text \<open>
  Claim C1, as amended. Let the label chosen by the check be the first most frequent type
  of the buffer, with its count. The count is the number of observations of that type and
  no type occurs more often. When the count is at least 3, the label differs from
  \<open>last_confirmed_gesture\<close> and the label is one of the four keys of the lookup table, the
  check records the confirmation with the mapped text, passes the text to the callback
  when one is installed, sets \<open>last_confirmed_gesture\<close> to the label and empties the buffer.
\<close>

theorem confirmation_of_mapped_majority:
  assumes "most_common_gesture (gesture_counts (gesture_buffer st)) = Some (label, count)"
    and "3 \<le> count"
    and "last_confirmed_gesture st \<noteq> Some label"
    and "gesture_text_map label = Some confirmed_text"
  shows "count = count_list (map gtype (gesture_buffer st)) label
    \<and> (\<forall>t. count_list (map gtype (gesture_buffer st)) t \<le> count)
    \<and> check_gesture_confirmation st =
        st\<lparr> confirmed_log := confirmed_log st @ [(label, confirmed_text)],
            last_confirmed_gesture := Some label,
            gesture_text_queue :=
              (if gesture_callback st then gesture_text_queue st @ [confirmed_text]
               else gesture_text_queue st),
            gesture_buffer := [] \<rparr>"
proof -
  have ne: "gesture_buffer st \<noteq> []"
    using assms(1) by (auto simp add: gesture_counts_def most_common_gesture_def)
  have "check_gesture_confirmation st =
        st\<lparr> confirmed_log := confirmed_log st @ [(label, confirmed_text)],
            last_confirmed_gesture := Some label,
            gesture_text_queue :=
              (if gesture_callback st then gesture_text_queue st @ [confirmed_text]
               else gesture_text_queue st),
            gesture_buffer := [] \<rparr>"
    using assms ne by (auto simp add: check_gesture_confirmation_def)
  with most_common_is_most_frequent [OF assms(1)] show ?thesis by blast
qed

text \<open>
  The stream open palm, open palm, fist, open palm, open palm: the palm has count 4 and is
  confirmed as \<open>Privet\<close>.
\<close>

theorem confirmation_of_mapped_majority_witness:
  "most_common_gesture (gesture_counts (gesture_buffer palm_handler)) = Some (''open_palm'', 4)
   \<and> last_confirmed_gesture palm_handler \<noteq> Some ''open_palm''
   \<and> gesture_text_map ''open_palm'' = Some ''Privet''
   \<and> check_gesture_confirmation palm_handler =
       palm_handler\<lparr> confirmed_log := [(''open_palm'', ''Privet'')],
                     last_confirmed_gesture := Some ''open_palm'',
                     gesture_text_queue := [''Privet''],
                     gesture_buffer := [] \<rparr>"
proof -
  have h: "most_common_gesture (gesture_counts (gesture_buffer palm_handler)) = Some (''open_palm'', 4)"
    "(3::nat) \<le> 4"
    "last_confirmed_gesture palm_handler \<noteq> Some ''open_palm''"
    "gesture_text_map ''open_palm'' = Some ''Privet''"
    by (simp_all add: palm_handler_def started_handler_def open_palm_def closed_fist_def
          gesture_counts_def most_common_gesture_def gesture_text_map_def
          start_real_time_analysis_def app_vision_config_def init_vision_def)
  have s: "gesture_callback palm_handler" "confirmed_log palm_handler = []"
    "gesture_text_queue palm_handler = []"
    by (simp_all add: palm_handler_def started_handler_def
          start_real_time_analysis_def app_vision_config_def init_vision_def)
  from confirmation_of_mapped_majority [OF h] h s show ?thesis by simp
qed

text \<open>
  Claim C1 as stated fails for a type outside the lookup table: three observations of a
  closed fist are the majority with count 3 and differ from \<open>last_confirmed_gesture\<close>, yet
  the check changes nothing.
\<close>

theorem unmapped_majority_counterexample:
  "most_common_gesture (gesture_counts (gesture_buffer fist_handler)) = Some (''closed_fist'', 3)
   \<and> last_confirmed_gesture fist_handler \<noteq> Some ''closed_fist''
   \<and> check_gesture_confirmation fist_handler = fist_handler
   \<and> gesture_buffer fist_handler \<noteq> []
   \<and> last_confirmed_gesture (check_gesture_confirmation fist_handler) = None
   \<and> confirmed_log (check_gesture_confirmation fist_handler) = []"
  by (simp add: fist_handler_def started_handler_def closed_fist_def vision_defs)

lemma check_keeps_flags:
  "is_vision_active (check_gesture_confirmation st) = is_vision_active st"
  "is_paused (check_gesture_confirmation st) = is_paused st"
  "is_recording (check_gesture_confirmation st) = is_recording st"
  "analysis_results (check_gesture_confirmation st) = analysis_results st"
  "last_gesture_time (check_gesture_confirmation st) = last_gesture_time st"
  by (simp_all add: check_gesture_confirmation_def split: option.splits prod.splits)

lemma check_cases:
  "check_gesture_confirmation st = st
   \<or> (\<exists>l tx. Some l \<noteq> last_confirmed_gesture st
        \<and> check_gesture_confirmation st =
            st\<lparr> confirmed_log := confirmed_log st @ [(l, tx)],
                last_confirmed_gesture := Some l,
                gesture_text_queue :=
                  (if gesture_callback st then gesture_text_queue st @ [tx]
                   else gesture_text_queue st),
                gesture_buffer := [] \<rparr>)"
  by (auto simp add: check_gesture_confirmation_def split: option.splits)

lemma check_log:
  "(confirmed_log (check_gesture_confirmation st) = confirmed_log st
      \<and> last_confirmed_gesture (check_gesture_confirmation st) = last_confirmed_gesture st)
   \<or> (\<exists>l tx. Some l \<noteq> last_confirmed_gesture st
        \<and> confirmed_log (check_gesture_confirmation st) = confirmed_log st @ [(l, tx)]
        \<and> last_confirmed_gesture (check_gesture_confirmation st) = Some l)"
  using check_cases [of st] by (elim disjE exE conjE) simp_all

subsection \<open>The frame callback and the public methods\<close>

lemma callback_log:
  "(confirmed_log (frame_analysis_callback cfg st gs now) = confirmed_log st
      \<and> last_confirmed_gesture (frame_analysis_callback cfg st gs now) = last_confirmed_gesture st)
   \<or> (\<exists>l tx. Some l \<noteq> last_confirmed_gesture st
        \<and> confirmed_log (frame_analysis_callback cfg st gs now) = confirmed_log st @ [(l, tx)]
        \<and> last_confirmed_gesture (frame_analysis_callback cfg st gs now) = Some l)"
proof -
  define st2 where "st2 =
    st\<lparr> current_gestures := map (\<lambda>g. g\<lparr> detected_at := now \<rparr>) gs,
        last_gesture_time := now,
        gesture_buffer := filter (\<lambda>g. now - detected_at g \<le> gesture_confirmation_time cfg)
          (gesture_buffer st @ map (\<lambda>g. g\<lparr> detected_at := now \<rparr>) gs) \<rparr>"
  have st2: "confirmed_log st2 = confirmed_log st"
    "last_confirmed_gesture st2 = last_confirmed_gesture st"
    by (simp_all add: st2_def)
  consider (same) "confirmed_log (frame_analysis_callback cfg st gs now) = confirmed_log st"
      "last_confirmed_gesture (frame_analysis_callback cfg st gs now) = last_confirmed_gesture st"
    | (check) "confirmed_log (frame_analysis_callback cfg st gs now)
        = confirmed_log (check_gesture_confirmation st2)"
      "last_confirmed_gesture (frame_analysis_callback cfg st gs now)
        = last_confirmed_gesture (check_gesture_confirmation st2)"
    by (cases "is_paused st \<or> now - last_gesture_time st > gesture_inactivity_timeout cfg \<or> gs = []")
      (auto simp add: frame_analysis_callback_def stop_real_time_analysis_def Let_def st2_def)
  then show ?thesis
  proof cases
    case same
    then show ?thesis by simp
  next
    case check
    with check_log [of st2] st2 show ?thesis by simp
  qed
qed

lemma step_log:
  assumes "\<not> is_Start e"
  shows "(confirmed_log (vision_step cfg st e) = confirmed_log st
      \<and> last_confirmed_gesture (vision_step cfg st e) = last_confirmed_gesture st)
   \<or> (\<exists>l tx. Some l \<noteq> last_confirmed_gesture st
        \<and> confirmed_log (vision_step cfg st e) = confirmed_log st @ [(l, tx)]
        \<and> last_confirmed_gesture (vision_step cfg st e) = Some l)"
proof (cases e)
  case (Frame gs now)
  then show ?thesis using callback_log [of cfg st gs now] by auto
qed (use assms in \<open>simp_all add: pause_analysis_def resume_analysis_def stop_real_time_analysis_def\<close>)

text \<open>
  The invariant of a run without a new start: the confirmations added so far have no two
  equal neighbours, and the last of them is what \<open>last_confirmed_gesture\<close> holds.
\<close>

lemma run_debounced:
  assumes "list_all (\<lambda>e. \<not> is_Start e) evs"
    and "confirmed_log st = log0 @ new"
    and "distinct_adj (map fst new)"
    and "new \<noteq> [] \<longrightarrow> last_confirmed_gesture st = Some (fst (last new))"
    and "new \<noteq> [] \<longrightarrow> P (hd new)"
    and "new = [] \<longrightarrow> (\<forall>l tx. Some l \<noteq> last_confirmed_gesture st \<longrightarrow> P (l, tx))"
  shows "\<exists>new'. confirmed_log (vision_run cfg st evs) = log0 @ new'
    \<and> distinct_adj (map fst new')
    \<and> (new' \<noteq> [] \<longrightarrow> last_confirmed_gesture (vision_run cfg st evs) = Some (fst (last new')))
    \<and> (new' \<noteq> [] \<longrightarrow> P (hd new'))"
  using assms unfolding vision_run_def
proof (induction evs arbitrary: st new)
  case Nil
  then show ?case by auto
next
  case (Cons e evs)
  from Cons.prems(1) have e: "\<not> is_Start e" and evs: "list_all (\<lambda>e. \<not> is_Start e) evs"
    by simp_all
  from step_log [OF e, of cfg st]
  consider (same) "confirmed_log (vision_step cfg st e) = confirmed_log st"
      "last_confirmed_gesture (vision_step cfg st e) = last_confirmed_gesture st"
    | (conf) l tx where "Some l \<noteq> last_confirmed_gesture st"
      "confirmed_log (vision_step cfg st e) = confirmed_log st @ [(l, tx)]"
      "last_confirmed_gesture (vision_step cfg st e) = Some l"
    by blast
  then show ?case
  proof cases
    case same
    with Cons.prems have
      "\<exists>new'. confirmed_log (foldl (vision_step cfg) (vision_step cfg st e) evs) = log0 @ new'
        \<and> distinct_adj (map fst new')
        \<and> (new' \<noteq> [] \<longrightarrow> last_confirmed_gesture (foldl (vision_step cfg) (vision_step cfg st e) evs) = Some (fst (last new')))
        \<and> (new' \<noteq> [] \<longrightarrow> P (hd new'))"
      by (intro Cons.IH [OF evs, of _ new]) simp_all
    then show ?thesis by simp
  next
    case conf
    have d: "distinct_adj (map fst (new @ [(l, tx)]))"
      using Cons.prems(3,4) conf(1)
      by (cases "new = []") (auto simp add: distinct_adj_append_iff last_map)
    have h: "P (hd (new @ [(l, tx)]))"
      using Cons.prems(5,6) conf(1) by (cases new) auto
    have
      "\<exists>new'. confirmed_log (foldl (vision_step cfg) (vision_step cfg st e) evs) = log0 @ new'
        \<and> distinct_adj (map fst new')
        \<and> (new' \<noteq> [] \<longrightarrow> last_confirmed_gesture (foldl (vision_step cfg) (vision_step cfg st e) evs) = Some (fst (last new')))
        \<and> (new' \<noteq> [] \<longrightarrow> P (hd new'))"
      using conf Cons.prems(2) d h
      by (intro Cons.IH [OF evs, of _ "new @ [(l, tx)]"]) simp_all
    then show ?thesis by simp
  qed
qed

text \<open>
  Claim C6. In a run of the engine that has no new start (frames, pauses, resumes and
  stops in any order, from any state, so in particular from a start to the next resume),
  the labels of the gestures confirmed during the run have no two equal neighbours; the
  last of them is the value of \<open>last_confirmed_gesture\<close>, and the first differs from the
  value \<open>last_confirmed_gesture\<close> had before the run.
\<close>

theorem no_consecutive_duplicate_confirmations:
  assumes "list_all (\<lambda>e. \<not> is_Start e) evs"
  shows "\<exists>new. confirmed_log (vision_run cfg st evs) = confirmed_log st @ new
    \<and> distinct_adj (map fst new)
    \<and> (new \<noteq> [] \<longrightarrow> last_confirmed_gesture (vision_run cfg st evs) = Some (fst (last new)))
    \<and> (new \<noteq> [] \<longrightarrow> Some (fst (hd new)) \<noteq> last_confirmed_gesture st)"
  using run_debounced [OF assms, of st "confirmed_log st" "[]"
      "\<lambda>c. Some (fst c) \<noteq> last_confirmed_gesture st" cfg]
  by simp

text \<open>
  Six frames with an open palm, a pause and a resume, three frames with a victory sign:
  the palm is confirmed once, then the victory sign.
\<close>

theorem no_consecutive_duplicate_confirmations_witness:
  "list_all (\<lambda>e. \<not> is_Start e) gesture_session
   \<and> confirmed_log (vision_run app_vision_config started_handler gesture_session)
       = [(''open_palm'', ''Privet''), (''victory'', ''Pobeda'')]
   \<and> (\<exists>new. confirmed_log (vision_run app_vision_config started_handler gesture_session)
          = confirmed_log started_handler @ new
        \<and> distinct_adj (map fst new))"
proof -
  have h: "list_all (\<lambda>e. \<not> is_Start e) gesture_session"
    by (simp add: gesture_session_def)
  have r: "confirmed_log (vision_run app_vision_config started_handler gesture_session)
       = [(''open_palm'', ''Privet''), (''victory'', ''Pobeda'')]"
    by (simp add: gesture_session_def started_handler_def open_palm_def victory_def vision_defs)
  from no_consecutive_duplicate_confirmations [OF h, of app_vision_config started_handler]
  have "\<exists>new. confirmed_log (vision_run app_vision_config started_handler gesture_session)
          = confirmed_log started_handler @ new
        \<and> distinct_adj (map fst new)"
    by blast
  with h r show ?thesis by blast
qed

text \<open>
  Claim C3, as amended. When analysis is active, \<open>resume\<close> after \<open>pause\<close> clears the pause
  flag, empties the gesture buffer and sets the inactivity timer to the resume instant; it
  leaves \<open>last_confirmed_gesture\<close> as it was. In every run that follows without a new start
  (frames, pauses, resumes and stops in any order), the first gesture confirmed has a label
  different from the one confirmed last before the pause, and no two confirmations in a
  row have the same label: the label held through the pause is not confirmed again until a
  different label has been confirmed. The same holds for the single frame callback after
  the resume.
\<close>

theorem resume_keeps_last_confirmed:
  assumes "is_vision_active st" and "list_all (\<lambda>e. \<not> is_Start e) evs"
  shows "resume_analysis (pause_analysis st) now =
           st\<lparr> is_paused := False, last_gesture_time := now, gesture_buffer := [] \<rparr>
    \<and> last_confirmed_gesture (resume_analysis (pause_analysis st) now) = last_confirmed_gesture st
    \<and> (\<exists>new. confirmed_log (vision_run cfg (resume_analysis (pause_analysis st) now) evs)
                 = confirmed_log st @ new
          \<and> distinct_adj (map fst new)
          \<and> (new \<noteq> [] \<longrightarrow> Some (fst (hd new)) \<noteq> last_confirmed_gesture st))
    \<and> (\<exists>new. confirmed_log (frame_analysis_callback cfg
                 (resume_analysis (pause_analysis st) now) gs t') = confirmed_log st @ new
          \<and> (\<forall>c\<in>set new. Some (fst c) \<noteq> last_confirmed_gesture st))"
proof -
  let ?r = "resume_analysis (pause_analysis st) now"
  have r: "?r = st\<lparr> is_paused := False, last_gesture_time := now, gesture_buffer := [] \<rparr>"
    using assms(1) by (simp add: resume_analysis_def pause_analysis_def)
  then have l: "last_confirmed_gesture ?r = last_confirmed_gesture st"
    "confirmed_log ?r = confirmed_log st"
    by simp_all
  from run_debounced [OF assms(2), of ?r "confirmed_log st" "[]"
      "\<lambda>c. Some (fst c) \<noteq> last_confirmed_gesture st" cfg] l
  have run: "\<exists>new. confirmed_log (vision_run cfg ?r evs) = confirmed_log st @ new
          \<and> distinct_adj (map fst new)
          \<and> (new \<noteq> [] \<longrightarrow> Some (fst (hd new)) \<noteq> last_confirmed_gesture st)"
    by auto
  from callback_log [of cfg ?r gs t'] l
  have "\<exists>new. confirmed_log (frame_analysis_callback cfg ?r gs t') = confirmed_log st @ new
          \<and> (\<forall>c\<in>set new. Some (fst c) \<noteq> last_confirmed_gesture st)"
    by (elim disjE exE conjE) (rule exI [of _ "[]"], simp, rule exI [of _ "[(l, tx)]" for l tx], simp)
  with r l run show ?thesis by blast
qed

text \<open>
  After the palm was confirmed and analysis paused and resumed, the palm held for three
  more frames confirms nothing; the victory sign is confirmed at its fourth frame, when it
  outnumbers the palm, and only then the palm again.
\<close>

theorem resume_keeps_last_confirmed_witness:
  "is_vision_active confirmed_handler
   \<and> list_all (\<lambda>e. \<not> is_Start e) resumed_session
   \<and> last_confirmed_gesture confirmed_handler = Some ''open_palm''
   \<and> resume_analysis (pause_analysis confirmed_handler) 5 =
       confirmed_handler\<lparr> is_paused := False, last_gesture_time := 5, gesture_buffer := [] \<rparr>
   \<and> last_confirmed_gesture (resume_analysis (pause_analysis confirmed_handler) 5)
       = Some ''open_palm''
   \<and> confirmed_log (vision_run app_vision_config
         (resume_analysis (pause_analysis confirmed_handler) 5) resumed_session)
       = confirmed_log confirmed_handler @ [(''victory'', ''Pobeda''), (''open_palm'', ''Privet'')]"
proof -
  have h: "is_vision_active confirmed_handler"
    and l: "last_confirmed_gesture confirmed_handler = Some ''open_palm''"
    by (simp_all add: confirmed_handler_def started_handler_def open_palm_def vision_defs)
  have e: "list_all (\<lambda>e. \<not> is_Start e) resumed_session"
    by (simp add: resumed_session_def held_palm_def)
  have c: "confirmed_log (vision_run app_vision_config
         (resume_analysis (pause_analysis confirmed_handler) 5) resumed_session)
       = confirmed_log confirmed_handler @ [(''victory'', ''Pobeda''), (''open_palm'', ''Privet'')]"
    by (simp add: confirmed_handler_def started_handler_def resumed_session_def held_palm_def
          open_palm_def victory_def vision_defs)
  from resume_keeps_last_confirmed [OF h e, of 5 app_vision_config "[]" 6] h e l c
  show ?thesis by simp
qed

text \<open>
  Claim C3 as stated fails: a palm is confirmed, analysis is paused and resumed, and the
  palm is still the value of \<open>last_confirmed_gesture\<close>. Three more frames with the palm
  fill the buffer with three palm observations and confirm nothing.
\<close>

theorem resume_keeps_debounce_counterexample:
  "last_confirmed_gesture (resume_analysis (pause_analysis confirmed_handler) 5) = Some ''open_palm''
   \<and> map gtype (gesture_buffer (vision_run app_vision_config
        (resume_analysis (pause_analysis confirmed_handler) 5) held_palm))
      = [''open_palm'', ''open_palm'', ''open_palm'']
   \<and> confirmed_log (vision_run app_vision_config
        (resume_analysis (pause_analysis confirmed_handler) 5) held_palm)
      = confirmed_log confirmed_handler"
  by (simp add: confirmed_handler_def started_handler_def held_palm_def open_palm_def vision_defs)

subsection \<open>Pause and the inactivity timeout\<close>

lemma callback_paused: "is_paused st \<Longrightarrow> frame_analysis_callback cfg st gs now = st"
  by (simp add: frame_analysis_callback_def)

lemma paused_frames_run:
  "is_paused st \<Longrightarrow> list_all is_Frame evs \<Longrightarrow> vision_run cfg st evs = st"
  unfolding vision_run_def
proof (induction evs)
  case Nil
  then show ?case by simp
next
  case (Cons e evs)
  then show ?case by (cases e) (simp_all add: callback_paused)
qed

lemma callback_active_after:
  "\<not> is_paused st \<Longrightarrow> is_vision_active st \<Longrightarrow>
   is_vision_active (frame_analysis_callback cfg st gs now)
     = (now - last_gesture_time st \<le> gesture_inactivity_timeout cfg)"
  by (auto simp add: frame_analysis_callback_def stop_real_time_analysis_def Let_def
        check_keeps_flags)

text \<open>
  Claim C9. While the engine is paused, any number of frames delivered at any times leave
  the handler as it is, so analysis is not stopped. After \<open>resume\<close> at time \<open>t\<close> the
  inactivity timer holds \<open>t\<close>, and the callback for a frame at time \<open>t'\<close> keeps analysis
  active exactly when \<open>t' - t\<close> is within the inactivity timeout.
\<close>

theorem pause_blocks_inactivity_timeout:
  assumes "is_paused st" and "is_vision_active st" and "list_all is_Frame evs"
  shows "vision_run cfg st evs = st
    \<and> last_gesture_time (resume_analysis (vision_run cfg st evs) t) = t
    \<and> \<not> is_paused (resume_analysis (vision_run cfg st evs) t)
    \<and> is_vision_active (frame_analysis_callback cfg (resume_analysis (vision_run cfg st evs) t) gs t')
        = (t' - t \<le> gesture_inactivity_timeout cfg)"
proof -
  have run: "vision_run cfg st evs = st"
    using assms by (simp add: paused_frames_run)
  have r: "\<not> is_paused (resume_analysis st t)" "is_vision_active (resume_analysis st t)"
    "last_gesture_time (resume_analysis st t) = t"
    using assms(2) by (simp_all add: resume_analysis_def)
  show ?thesis
    using run r callback_active_after [OF r(1) r(2), of cfg gs t'] by simp
qed

theorem pause_blocks_inactivity_timeout_witness:
  "is_paused paused_handler \<and> is_vision_active paused_handler
   \<and> list_all is_Frame [Frame [] 1000, Frame [] 2000]
   \<and> vision_run app_vision_config paused_handler [Frame [] 1000, Frame [] 2000] = paused_handler
   \<and> is_vision_active (frame_analysis_callback app_vision_config
         (resume_analysis (vision_run app_vision_config paused_handler [Frame [] 1000, Frame [] 2000]) 3000) [] 3005)"
proof -
  have h: "is_paused paused_handler" "is_vision_active paused_handler"
    "list_all is_Frame [Frame [] 1000, Frame [] 2000]"
    by (simp_all add: paused_handler_def started_handler_def pause_analysis_def
          start_real_time_analysis_def app_vision_config_def init_vision_def)
  have t: "(3005::real) - 3000 \<le> gesture_inactivity_timeout app_vision_config"
    by (simp add: app_vision_config_def)
  from pause_blocks_inactivity_timeout [OF h, of app_vision_config 3000 "[]" 3005] t h
  show ?thesis by blast
qed

subsection \<open>The analysis history\<close>

lemma callback_results_bound:
  "length (analysis_results st) \<le> 20 \<Longrightarrow>
   length (analysis_results (frame_analysis_callback cfg st gs now)) \<le> 20"
  by (simp add: frame_analysis_callback_def stop_real_time_analysis_def Let_def check_keeps_flags)

lemma step_results_bound:
  "length (analysis_results st) \<le> 20 \<Longrightarrow> length (analysis_results (vision_step cfg st e)) \<le> 20"
  by (cases e)
    (simp_all add: callback_results_bound start_real_time_analysis_def pause_analysis_def
       resume_analysis_def stop_real_time_analysis_def)

lemma run_results_bound:
  "length (analysis_results st) \<le> 20 \<Longrightarrow> length (analysis_results (vision_run cfg st evs)) \<le> 20"
  unfolding vision_run_def
  by (induction evs arbitrary: st) (simp_all add: step_results_bound)

lemma recent_le: "length (get_recent_analysis st count) \<le> length (analysis_results st)"
  by (simp add: get_recent_analysis_def)

text \<open>
  Claim C10. In every state a new handler reaches through starts, frames, pauses, resumes
  and stops, the analysis history has at most 20 entries; so it has after one more
  invocation of the frame callback, and \<open>get_recent_analysis\<close> returns at most 20 entries
  for every count.
\<close>

theorem analysis_history_bounded:
  "length (analysis_results (vision_run cfg (init_vision t0) evs)) \<le> 20
   \<and> length (analysis_results
        (frame_analysis_callback cfg (vision_run cfg (init_vision t0) evs) gs now)) \<le> 20
   \<and> length (get_recent_analysis (vision_run cfg (init_vision t0) evs) count) \<le> 20"
proof -
  have a: "length (analysis_results (vision_run cfg (init_vision t0) evs)) \<le> 20"
    by (rule run_results_bound) (simp add: init_vision_def)
  from a callback_results_bound [OF a] recent_le [of "vision_run cfg (init_vision t0) evs" count]
  show ?thesis by (meson le_trans)
qed

subsection \<open>Turn taking\<close>

text \<open>
  Claim C7. The chat handler computes the flag of a request in \<open>begin_generation\<close> and
  hands it to the \<open>end_generation\<close> of the same request. A second \<open>begin_generation\<close> in a
  row finds the engine paused or inactive: it owes no resume and changes nothing. Of the
  two \<open>end_generation\<close> calls of two requests begun in a row, the one of the second request
  is without effect, whichever comes first: two ends in a row leave the state that the one
  end with the resume owed leaves.
\<close>

theorem generation_calls_idempotent:
  "(let b1 = begin_generation st; b2 = begin_generation (snd b1)
    in b2 = (False, snd b1)
       \<and> end_generation (fst b2) (end_generation (fst b1) (snd b2) t1) t2
           = end_generation (fst b1) (snd b2) t1
       \<and> end_generation (fst b2) (snd b2) t1 = snd b2
       \<and> end_generation (fst b1) (end_generation (fst b2) (snd b2) t1) t2
           = end_generation (fst b1) (snd b2) t2)"
  by (simp add: begin_generation_def end_generation_def pause_analysis_def resume_analysis_def
        Let_def)

text \<open>
  Two requests begun in a row on a started handler: the first pauses the engine, the second
  owes nothing; after both ends the engine is resumed once, with the timer at the time of
  the first end.
\<close>

theorem generation_calls_idempotent_witness:
  "begin_generation started_handler = (True, paused_handler)
   \<and> begin_generation paused_handler = (False, paused_handler)
   \<and> end_generation False (end_generation True paused_handler 1) 2
       = end_generation True paused_handler 1
   \<and> last_gesture_time (end_generation False (end_generation True paused_handler 1) 2) = 1
   \<and> \<not> is_paused (end_generation False (end_generation True paused_handler 1) 2)"
proof -
  have b: "begin_generation started_handler = (True, paused_handler)"
    by (simp add: begin_generation_def paused_handler_def started_handler_def vision_defs)
  have r: "last_gesture_time (end_generation True paused_handler 1) = 1"
    "\<not> is_paused (end_generation True paused_handler 1)"
    by (simp_all add: end_generation_def paused_handler_def started_handler_def vision_defs)
  note t = generation_calls_idempotent [of started_handler 1 2,
      unfolded Let_def b fst_conv snd_conv]
  from t have b2: "begin_generation paused_handler = (False, paused_handler)"
    by (rule conjunct1)
  note t2 = t [unfolded b2 fst_conv snd_conv]
  from t2 have e: "end_generation False (end_generation True paused_handler 1) 2
       = end_generation True paused_handler 1"
    by blast
  from b b2 e r show ?thesis by simp
qed

section \<open>Properties of the voice activity segmenter\<close>

lemma process_keeps:
  "is_listening (process_recorded_audio env r st) = is_listening st"
  "audio_stream (process_recorded_audio env r st) = audio_stream st"
  "pyaudio_instance (process_recorded_audio env r st) = pyaudio_instance st"
  "last_speech_time (process_recorded_audio env r st) = last_speech_time st"
  "audio_frames (process_recorded_audio env r st) = audio_frames st"
  by (simp_all add: process_recorded_audio_def Let_def split: recognition.splits)

lemma iteration_running_listening:
  assumes "worker_iteration env r s x = (s', Running)"
  shows "is_listening (fst s') = is_listening (fst s)"
  using assms
  by (auto simp add: worker_iteration_def Let_def process_keeps
      split: prod.splits read_result.splits option.splits if_splits)

lemma running_is_listening:
  "recording_worker env r s xs = (s', Running) \<Longrightarrow> is_listening (fst s')"
proof (induction xs arbitrary: s)
  case Nil
  then show ?case by (simp split: if_splits)
next
  case (Cons x xs)
  then show ?case
    by (auto split: if_splits prod.splits loop_status.splits)
qed

lemma recording_worker_append:
  "recording_worker env r s (xs @ ys) =
     (case recording_worker env r s xs of
        (s', Running) \<Rightarrow> recording_worker env r s' ys
      | (s', Exited) \<Rightarrow> (s', Exited))"
proof (induction xs arbitrary: s)
  case Nil
  then show ?case by (cases ys) simp_all
next
  case (Cons x xs)
  then show ?case
    by (simp split: prod.splits loop_status.splits)
qed

lemma quiet_idle_iteration:
  assumes "quiet_input env x" and "\<not> has_speech w" and "last_speech_time st = Some t0"
  shows "worker_iteration env r (st, w) x =
     (if inactivity_timeout env < snd x - t0
      then ((fst (stop_listening env (st\<lparr> audio_frames := audio_frames st @ frames_of [x] \<rparr>)), w), Exited)
      else ((st\<lparr> audio_frames := audio_frames st @ frames_of [x] \<rparr>, w), Running))"
proof -
  obtain rd now where x: "x = (rd, now)" by (cases x)
  with assms(1) obtain f where rd: "rd = Read_frame f" and q: "\<not> is_loud (volume_threshold env) f"
    by (auto simp add: quiet_input_def split: read_result.splits)
  show ?thesis
    using assms(2,3) q
    by (simp add: x rd worker_iteration_def Let_def split: option.splits)
qed

lemma stop_listening_held:
  assumes "is_listening st" and "audio_stream st" and "pyaudio_instance st"
  shows "stop_listening env st =
     (if stop_stream_raises env
      then (st\<lparr> is_listening := False, call_log := call_log st @ [Stop_stream] \<rparr>, None)
      else if close_raises env
      then (st\<lparr> is_listening := False,
               call_log := call_log st @ [Stop_stream, Close_stream] \<rparr>, None)
      else if terminate_raises env
      then (st\<lparr> is_listening := False,
               call_log := call_log st @ [Stop_stream, Close_stream, Terminate_pyaudio],
               audio_stream := False \<rparr>, None)
      else (st\<lparr> is_listening := False,
               call_log := call_log st @ [Stop_stream, Close_stream, Terminate_pyaudio],
               audio_stream := False, pyaudio_instance := False \<rparr>, Some ''Zapis ostanovlena''))"
  using assms by (simp add: stop_listening_def Let_def)

lemma stop_listening_again:
  "stop_listening env (fst (stop_listening env st)) = (fst (stop_listening env st), None)"
  by (simp add: stop_listening_def Let_def)

lemma idle_run_stops:
  assumes "is_listening st"
    and "\<not> has_speech w" and "last_speech_time st = Some t0"
    and "\<forall>x\<in>set xs. quiet_input env x"
    and "\<exists>x\<in>set xs. inactivity_timeout env < snd x - t0"
  shows "\<exists>fs. recording_worker env r (st, w) (xs @ post) =
     ((fst (stop_listening env (st\<lparr> audio_frames := fs \<rparr>)), w), Exited)"
  using assms
proof (induction xs arbitrary: st)
  case Nil
  then show ?case by simp
next
  case (Cons a xs)
  let ?st1 = "st\<lparr> audio_frames := audio_frames st @ frames_of [a] \<rparr>"
  have a: "quiet_input env a" using Cons.prems(4) by simp
  note it = quiet_idle_iteration [OF a Cons.prems(2) Cons.prems(3), of r]
  show ?case
  proof (cases "inactivity_timeout env < snd a - t0")
    case True
    with it Cons.prems(1) show ?thesis
      by (intro exI [of _ "audio_frames st @ frames_of [a]"]) simp
  next
    case False
    with Cons.prems(5) have ex: "\<exists>x\<in>set xs. inactivity_timeout env < snd x - t0" by auto
    have "\<exists>fs. recording_worker env r (?st1, w) (xs @ post) =
       ((fst (stop_listening env (?st1\<lparr> audio_frames := fs \<rparr>)), w), Exited)"
      using Cons.prems ex by (intro Cons.IH) simp_all
    with False it Cons.prems(1) show ?thesis by auto
  qed
qed

lemma start_listening_started:
  assumes "start_listening env st0 ok t0 = (st, Started)"
  shows "st = st0\<lparr> is_listening := True, audio_frames := [], last_speech_time := Some t0,
                  pyaudio_instance := True, audio_stream := True \<rparr>"
  using assms by (auto simp add: start_listening_def Let_def split: if_splits device_open.splits)

text \<open>
  Claim C5, as amended. A session is started at time \<open>t0\<close>, every read up to and
  including \<open>x\<close> gives a quiet frame, and \<open>x\<close> is read more than the inactivity timeout
  after \<open>t0\<close>. Then the loop has exited, whatever input follows, and the state is the one
  left by the single call of \<open>stop_listening\<close> that the loop made: \<open>is_listening\<close> is false
  and a further \<open>stop_listening\<close> changes nothing and returns no status. When no device
  call raises, the calls made since the start are one stop and one close of the stream and
  one termination of PyAudio, both are released and the call returned the stopped status.
  When a device call raises, the calls end with it, what was not yet released stays held
  (the stream unless both \<open>stop_stream\<close> and \<open>close\<close> returned, PyAudio always), and no
  status was returned. No segment is handed over in either case.
\<close>

theorem inactivity_stops_session_once:
  assumes "start_listening env st0 device_ok t0 = (st, Started)"
    and "\<forall>x\<in>set (pre @ [x]). quiet_input env x"
    and "inactivity_timeout env < snd x - t0"
    and "recording_worker env recognize (st, fresh_worker) (pre @ x # post) = ((st', w'), status)"
  shows "status = Exited \<and> \<not> is_listening st'
    \<and> stop_listening env st' = (st', None)
    \<and> (\<exists>fs. stop_listening env (st\<lparr> audio_frames := fs \<rparr>) =
          (st', if stop_stream_raises env \<or> close_raises env \<or> terminate_raises env
                then None else Some ''Zapis ostanovlena''))
    \<and> call_log st' = call_log st0 @
          (if stop_stream_raises env then [Stop_stream]
           else if close_raises env then [Stop_stream, Close_stream]
           else [Stop_stream, Close_stream, Terminate_pyaudio])
    \<and> audio_stream st' = (stop_stream_raises env \<or> close_raises env)
    \<and> pyaudio_instance st'
        = (stop_stream_raises env \<or> close_raises env \<or> terminate_raises env)"
proof -
  note s = start_listening_started [OF assms(1)]
  have "\<exists>fs. recording_worker env recognize (st, fresh_worker) ((pre @ [x]) @ post) =
     ((fst (stop_listening env (st\<lparr> audio_frames := fs \<rparr>)), fresh_worker), Exited)"
    using assms(2,3) s
    by (intro idle_run_stops [where ?t0.0 = t0]) (simp_all add: fresh_worker_def)
  then obtain fs where
    run: "recording_worker env recognize (st, fresh_worker) ((pre @ [x]) @ post) =
     ((fst (stop_listening env (st\<lparr> audio_frames := fs \<rparr>)), fresh_worker), Exited)"
    by blast
  let ?pre = "st\<lparr> audio_frames := fs \<rparr>"
  from run assms(4) have st': "st' = fst (stop_listening env ?pre)"
    and status: "status = Exited"
    by simp_all
  have held: "is_listening ?pre" "audio_stream ?pre" "pyaudio_instance ?pre"
    "call_log ?pre = call_log st0"
    using s by simp_all
  note stop = stop_listening_held [OF held(1-3), of env]
  have again: "stop_listening env st' = (st', None)"
    unfolding st' by (rule stop_listening_again)
  have one: "\<exists>fs. stop_listening env (st\<lparr> audio_frames := fs \<rparr>) =
          (st', if stop_stream_raises env \<or> close_raises env \<or> terminate_raises env
                then None else Some ''Zapis ostanovlena'')"
    using stop st' by (intro exI [of _ fs]) simp
  have rest: "\<not> is_listening st'"
    "call_log st' = call_log st0 @
          (if stop_stream_raises env then [Stop_stream]
           else if close_raises env then [Stop_stream, Close_stream]
           else [Stop_stream, Close_stream, Terminate_pyaudio])"
    "audio_stream st' = (stop_stream_raises env \<or> close_raises env)"
    "pyaudio_instance st'
        = (stop_stream_raises env \<or> close_raises env \<or> terminate_raises env)"
    using stop st' held by simp_all
  from status again one rest show ?thesis by blast
qed

lemma emitted_append: "emitted (xs @ ys) = emitted xs @ emitted ys"
  by (induction xs rule: emitted.induct) simp_all

lemma handed_off_append: "handed_off (xs @ ys) = handed_off xs @ handed_off ys"
  by (induction xs rule: handed_off.induct) simp_all

lemma frames_of_append: "frames_of (xs @ ys) = frames_of xs @ frames_of ys"
  by (induction xs rule: frames_of.induct) simp_all

lemma stop_listening_keeps_emitted:
  "emitted (call_log (fst (stop_listening env st))) = emitted (call_log st)"
  "handed_off (call_log (fst (stop_listening env st))) = handed_off (call_log st)"
  "recognized_text_queue (fst (stop_listening env st)) = recognized_text_queue st"
  "audio_frames (fst (stop_listening env st)) = audio_frames st"
  by (simp_all add: stop_listening_def Let_def emitted_append handed_off_append)

lemma process_calls:
  "handed_off (call_log (process_recorded_audio env r st))
     = handed_off (call_log st) @ [audio_frames st]"
  "emitted (call_log (process_recorded_audio env r st))
     = emitted (call_log st) @
         (if 10 \<le> length (audio_frames st) \<and> recognizer_available env
          then [audio_frames st] else [])"
  by (auto simp add: process_recorded_audio_def Let_def emitted_append handed_off_append
        split: recognition.splits)

lemma process_failure:
  assumes "r (audio_frames st) = Unknown_value \<or> r (audio_frames st) = Request_error
           \<or> r (audio_frames st) = Other_exception"
  shows "recognized_text_queue (process_recorded_audio env r st) = recognized_text_queue st"
  using assms by (auto simp add: process_recorded_audio_def Let_def)

text \<open>What one pass through the loop body does, by the branch it takes.\<close>

lemma iteration_cases:
  fixes st w f now env r
  defines "st1 \<equiv> st\<lparr> audio_frames := audio_frames st @ [f] \<rparr>"
  defines "w1 \<equiv> (if has_speech w \<and> silence_start w = None then w\<lparr> silence_start := Some now \<rparr> else w)"
  defines "confirm \<equiv> (\<not> is_loud (volume_threshold env) f \<and> has_speech w
      \<and> (\<exists>ss. silence_start w1 = Some ss \<and> ss \<noteq> 0 \<and> silence_threshold env \<le> now - ss))"
  defines "s2 \<equiv>
     (if is_loud (volume_threshold env) f
      then (st1\<lparr> last_speech_time := Some now \<rparr>, w\<lparr> has_speech := True, silence_start := None \<rparr>)
      else if confirm
      then ((process_recorded_audio env r st1)\<lparr> audio_frames := [], last_speech_time := Some now \<rparr>,
            w1\<lparr> has_speech := False, silence_start := None \<rparr>)
      else (st1, w1))"
  shows "worker_iteration env r (st, w) (Read_frame f, now) =
     (case last_speech_time (fst s2) of
        None \<Rightarrow> (s2, Exited)
      | Some lst \<Rightarrow>
          if inactivity_timeout env < now - lst
          then ((fst (stop_listening env (fst s2)), snd s2), Exited)
          else (s2, Running))"
  unfolding s2_def confirm_def w1_def st1_def
  by (auto simp add: worker_iteration_def Let_def split: option.splits)

text \<open>
  Claim C8. In a listening session with a timeout that is not negative, let a pass through
  the loop hand a segment to the recognizer, and let the recognizer answer with
  \<^verbatim>\<open>UnknownValueError\<close>, \<^verbatim>\<open>RequestError\<close> or any other exception. Then the pass ends with
  the loop running and \<open>is_listening\<close> true, the segment is the one emission of the pass,
  no text is queued, the frame buffer is empty and \<open>has_speech\<close> is reset, and the loop goes
  on with the next read.
\<close>

theorem recognition_failure_contained:
  assumes "is_listening st" and "0 \<le> inactivity_timeout env"
    and "worker_iteration env recognize (st, w) (Read_frame f, now) = ((st', w'), status)"
    and "emitted (call_log st') \<noteq> emitted (call_log st)"
    and "recognize (audio_frames st @ [f]) = Unknown_value
         \<or> recognize (audio_frames st @ [f]) = Request_error
         \<or> recognize (audio_frames st @ [f]) = Other_exception"
  shows "status = Running \<and> is_listening st'
    \<and> emitted (call_log st') = emitted (call_log st) @ [audio_frames st @ [f]]
    \<and> recognized_text_queue st' = recognized_text_queue st
    \<and> audio_frames st' = [] \<and> last_speech_time st' = Some now \<and> \<not> has_speech w'
    \<and> recording_worker env recognize (st, w) ((Read_frame f, now) # rest)
        = recording_worker env recognize (st', w') rest"
proof -
  let ?st1 = "st\<lparr> audio_frames := audio_frames st @ [f] \<rparr>"
  let ?w1 = "if has_speech w \<and> silence_start w = None then w\<lparr> silence_start := Some now \<rparr> else w"
  let ?confirm = "\<not> is_loud (volume_threshold env) f \<and> has_speech w
      \<and> (\<exists>ss. silence_start ?w1 = Some ss \<and> ss \<noteq> 0 \<and> silence_threshold env \<le> now - ss)"
  note it = iteration_cases [of env recognize st w f now]
  have c: ?confirm
  proof (rule ccontr)
    assume n: "\<not> ?confirm"
    have "emitted (call_log st') = emitted (call_log st)"
      using it assms(3) n
      by (auto simp add: stop_listening_keeps_emitted split: option.splits if_splits)
    with assms(4) show False by simp
  qed
  have q: "recognized_text_queue (process_recorded_audio env recognize ?st1) = recognized_text_queue st"
    using process_failure [of recognize ?st1 env] assms(5) by simp
  have e: "emitted (call_log (process_recorded_audio env recognize ?st1)) \<noteq> emitted (call_log st)
    \<Longrightarrow> emitted (call_log (process_recorded_audio env recognize ?st1))
         = emitted (call_log st) @ [audio_frames st @ [f]]"
    using process_calls(2) [of env recognize ?st1] by (simp split: if_splits)
  have r: "st' = (process_recorded_audio env recognize ?st1)\<lparr> audio_frames := [], last_speech_time := Some now \<rparr>
      \<and> w' = ?w1\<lparr> has_speech := False, silence_start := None \<rparr> \<and> status = Running"
    using it assms(2,3) c by (auto split: if_splits)
  with assms(1,4) q e have
    "status = Running \<and> is_listening st'
    \<and> emitted (call_log st') = emitted (call_log st) @ [audio_frames st @ [f]]
    \<and> recognized_text_queue st' = recognized_text_queue st
    \<and> audio_frames st' = [] \<and> last_speech_time st' = Some now \<and> \<not> has_speech w'"
    by (simp add: process_keeps)
  moreover have "recording_worker env recognize (st, w) ((Read_frame f, now) # rest)
        = recording_worker env recognize (st', w') rest"
    using assms(1,3) r by simp
  ultimately show ?thesis by blast
qed

lemma quiet_inputD:
  assumes "quiet_input env x"
  obtains f where "x = (Read_frame f, snd x)" and "\<not> is_loud (volume_threshold env) f"
    and "frames_of [x] = [f]"
  using assms by (cases x; cases "fst x") (auto simp add: quiet_input_def)

lemma loud_inputD:
  assumes "loud_input env x"
  obtains f where "x = (Read_frame f, snd x)" and "is_loud (volume_threshold env) f"
    and "frames_of [x] = [f]"
  using assms by (cases x; cases "fst x") (auto simp add: loud_input_def)

lemma frames_of_Cons1: "frames_of (a # xs) = frames_of [a] @ frames_of xs"
  using frames_of_append [of "[a]" xs] by simp

lemma idle_run_continues:
  assumes "is_listening st" and "\<not> has_speech w" and "last_speech_time st = Some t0"
    and "\<forall>x\<in>set xs. quiet_input env x \<and> snd x - t0 \<le> inactivity_timeout env"
  shows "recording_worker env r (st, w) xs =
     ((st\<lparr> audio_frames := audio_frames st @ frames_of xs \<rparr>, w), Running)"
  using assms
proof (induction xs arbitrary: st)
  case Nil
  then show ?case by simp
next
  case (Cons a xs)
  let ?st1 = "st\<lparr> audio_frames := audio_frames st @ frames_of [a] \<rparr>"
  have a: "quiet_input env a" "\<not> inactivity_timeout env < snd a - t0"
    using Cons.prems(4) by auto
  have it: "worker_iteration env r (st, w) a = ((?st1, w), Running)"
    using quiet_idle_iteration [OF a(1) Cons.prems(2,3), of r] a(2) by simp
  have "recording_worker env r (?st1, w) xs =
     ((?st1\<lparr> audio_frames := audio_frames ?st1 @ frames_of xs \<rparr>, w), Running)"
    using Cons.prems by (intro Cons.IH) simp_all
  with it Cons.prems(1) show ?case
    by (simp add: frames_of_Cons1 [of a xs])
qed

lemma loud_iteration:
  assumes "loud_input env x" and "0 \<le> inactivity_timeout env"
  shows "worker_iteration env r (st, w) x =
     ((st\<lparr> audio_frames := audio_frames st @ frames_of [x], last_speech_time := Some (snd x) \<rparr>,
       w\<lparr> has_speech := True, silence_start := None \<rparr>), Running)"
proof -
  from assms(1) obtain f where x: "x = (Read_frame f, snd x)"
    and l: "is_loud (volume_threshold env) f" and fs: "frames_of [x] = [f]"
    by (rule loud_inputD)
  show ?thesis
    using iteration_cases [of env r st w f "snd x"] l assms(2) x fs by simp
qed

lemma loud_run:
  assumes "xs \<noteq> []" and "is_listening st" and "\<forall>x\<in>set xs. loud_input env x"
    and "0 \<le> inactivity_timeout env"
  shows "recording_worker env r (st, w) xs =
     ((st\<lparr> audio_frames := audio_frames st @ frames_of xs,
           last_speech_time := Some (snd (last xs)) \<rparr>,
       w\<lparr> has_speech := True, silence_start := None \<rparr>), Running)"
  using assms
proof (induction xs arbitrary: st w rule: list_nonempty_induct)
  case (single x)
  then show ?case by (simp add: loud_iteration)
next
  case (cons x xs)
  let ?st1 = "st\<lparr> audio_frames := audio_frames st @ frames_of [x], last_speech_time := Some (snd x) \<rparr>"
  let ?w1 = "w\<lparr> has_speech := True, silence_start := None \<rparr>"
  have it: "worker_iteration env r (st, w) x = ((?st1, ?w1), Running)"
    using cons.prems by (simp add: loud_iteration)
  have "recording_worker env r (?st1, ?w1) xs =
     ((?st1\<lparr> audio_frames := audio_frames ?st1 @ frames_of xs,
           last_speech_time := Some (snd (last xs)) \<rparr>,
       ?w1\<lparr> has_speech := True, silence_start := None \<rparr>), Running)"
    using cons.prems by (intro cons.IH) simp_all
  with it cons.prems(1) cons.hyps show ?case
    by (simp add: frames_of_Cons1 [of x xs])
qed

lemma first_quiet_iteration:
  assumes "quiet_input env x" and "has_speech w" and "silence_start w = None"
    and "0 < silence_threshold env"
    and "last_speech_time st = Some ts" and "snd x - ts \<le> inactivity_timeout env"
  shows "worker_iteration env r (st, w) x =
     ((st\<lparr> audio_frames := audio_frames st @ frames_of [x] \<rparr>,
       w\<lparr> silence_start := Some (snd x) \<rparr>), Running)"
proof -
  from assms(1) obtain f where x: "x = (Read_frame f, snd x)"
    and l: "\<not> is_loud (volume_threshold env) f" and fs: "frames_of [x] = [f]"
    by (rule quiet_inputD)
  show ?thesis
    using iteration_cases [of env r st w f "snd x"] l assms(2-6) x fs by simp
qed

lemma waiting_iteration:
  assumes "quiet_input env x" and "has_speech w" and "silence_start w = Some s"
    and "snd x - s < silence_threshold env"
    and "last_speech_time st = Some ts" and "snd x - ts \<le> inactivity_timeout env"
  shows "worker_iteration env r (st, w) x =
     ((st\<lparr> audio_frames := audio_frames st @ frames_of [x] \<rparr>, w), Running)"
proof -
  from assms(1) obtain f where x: "x = (Read_frame f, snd x)"
    and l: "\<not> is_loud (volume_threshold env) f" and fs: "frames_of [x] = [f]"
    by (rule quiet_inputD)
  show ?thesis
    using iteration_cases [of env r st w f "snd x"] l assms(2-6) x fs by simp
qed

lemma waiting_run:
  assumes "is_listening st" and "has_speech w" and "silence_start w = Some s"
    and "last_speech_time st = Some ts"
    and "\<forall>x\<in>set xs. quiet_input env x \<and> snd x - s < silence_threshold env
           \<and> snd x - ts \<le> inactivity_timeout env"
  shows "recording_worker env r (st, w) xs =
     ((st\<lparr> audio_frames := audio_frames st @ frames_of xs \<rparr>, w), Running)"
  using assms
proof (induction xs arbitrary: st)
  case Nil
  then show ?case by simp
next
  case (Cons a xs)
  let ?st1 = "st\<lparr> audio_frames := audio_frames st @ frames_of [a] \<rparr>"
  have it: "worker_iteration env r (st, w) a = ((?st1, w), Running)"
    using Cons.prems by (intro waiting_iteration [where s = s and ts = ts]) simp_all
  have "recording_worker env r (?st1, w) xs =
     ((?st1\<lparr> audio_frames := audio_frames ?st1 @ frames_of xs \<rparr>, w), Running)"
    using Cons.prems by (intro Cons.IH) simp_all
  with it Cons.prems(1) show ?case
    by (simp add: frames_of_Cons1 [of a xs])
qed

lemma confirm_iteration:
  assumes "\<not> is_loud (volume_threshold env) f" and "has_speech w" and "silence_start w = Some s"
    and "s \<noteq> 0" and "silence_threshold env \<le> now - s" and "0 \<le> inactivity_timeout env"
  shows "worker_iteration env r (st, w) (Read_frame f, now) =
     (((process_recorded_audio env r (st\<lparr> audio_frames := audio_frames st @ [f] \<rparr>))
          \<lparr> audio_frames := [], last_speech_time := Some now \<rparr>,
       w\<lparr> has_speech := False, silence_start := None \<rparr>), Running)"
  using iteration_cases [of env r st w f now] assms by simp

text \<open>
  Claim C2, as amended. A session is started at \<open>t0\<close>; the reads give leading silence
  within the inactivity timeout, then at least one loud frame, then quiet frames of which
  the first is \<open>c1\<close>, the silence threshold being reached first at frame \<open>f\<close> read at \<open>now\<close>,
  then quiet frames within the timeout after \<open>now\<close>; at least 10 frames are read up to
  \<open>f\<close>. Then exactly one segment is emitted. It holds every frame read from the start of
  the session up to \<open>f\<close>: the leading silence, the speech and the confirming silence. The
  loop is still running and the session listening, \<open>last_speech_time\<close> is \<open>now\<close>, and the
  buffer holds the frames read after \<open>f\<close>.
\<close>

theorem segment_of_one_utterance:
  assumes start: "start_listening env st0 device_ok t0 = (st, Started)"
    and thr: "0 < silence_threshold env" "0 \<le> inactivity_timeout env"
    and lead: "\<forall>x\<in>set lead. quiet_input env x \<and> snd x - t0 \<le> inactivity_timeout env"
    and speech: "speech \<noteq> []" "\<forall>x\<in>set speech. loud_input env x"
    and wait: "\<forall>x\<in>set (c1 # wait). quiet_input env x
                 \<and> snd x - snd c1 < silence_threshold env
                 \<and> snd x - snd (last speech) \<le> inactivity_timeout env"
    and nz: "snd c1 \<noteq> 0"
    and confirm: "\<not> is_loud (volume_threshold env) f" "silence_threshold env \<le> now - snd c1"
    and trail: "\<forall>x\<in>set trail. quiet_input env x \<and> snd x - now \<le> inactivity_timeout env"
    and len: "10 \<le> length (frames_of lead @ frames_of speech @ frames_of (c1 # wait) @ [f])"
    and run: "recording_worker env recognize (st, fresh_worker)
                (lead @ speech @ c1 # wait @ (Read_frame f, now) # trail) = ((st', w'), status)"
  shows "status = Running \<and> is_listening st'
    \<and> emitted (call_log st')
        = emitted (call_log st0) @ [frames_of lead @ frames_of speech @ frames_of (c1 # wait) @ [f]]
    \<and> audio_frames st' = frames_of trail
    \<and> last_speech_time st' = Some now \<and> \<not> has_speech w'"
proof -
  note s = start_listening_started [OF start]
  have avail: "recognizer_available env"
    using start by (auto simp add: start_listening_def Let_def split: if_splits device_open.splits)
  let ?w2 = "fresh_worker\<lparr> has_speech := True, silence_start := None \<rparr>"
  let ?w3 = "?w2\<lparr> silence_start := Some (snd c1) \<rparr>"
  let ?w5 = "?w3\<lparr> has_speech := False, silence_start := None \<rparr>"
  let ?A1 = "st\<lparr> audio_frames := audio_frames st @ frames_of lead \<rparr>"
  let ?A2 = "?A1\<lparr> audio_frames := audio_frames ?A1 @ frames_of speech,
                   last_speech_time := Some (snd (last speech)) \<rparr>"
  let ?A3 = "?A2\<lparr> audio_frames := audio_frames ?A2 @ frames_of [c1] \<rparr>"
  let ?A4 = "?A3\<lparr> audio_frames := audio_frames ?A3 @ frames_of wait \<rparr>"
  let ?P = "process_recorded_audio env recognize (?A4\<lparr> audio_frames := audio_frames ?A4 @ [f] \<rparr>)"
  let ?A5 = "?P\<lparr> audio_frames := [], last_speech_time := Some now \<rparr>"
  let ?A6 = "?A5\<lparr> audio_frames := audio_frames ?A5 @ frames_of trail \<rparr>"
  have l: "is_listening st" "audio_frames st = []" "last_speech_time st = Some t0"
    "call_log st = call_log st0"
    using s by simp_all
  have t6: "recording_worker env recognize (?A5, ?w5) trail = ((?A6, ?w5), Running)"
    using trail l(1) by (intro idle_run_continues [where ?t0.0 = now]) (simp_all add: process_keeps)
  have i5: "worker_iteration env recognize (?A4, ?w3) (Read_frame f, now) = ((?A5, ?w5), Running)"
    using confirm nz thr(2) by (intro confirm_iteration [where s = "snd c1"]) simp_all
  have t5: "recording_worker env recognize (?A4, ?w3) ((Read_frame f, now) # trail)
      = ((?A6, ?w5), Running)"
    using i5 t6 l(1) by simp
  have t4w: "recording_worker env recognize (?A3, ?w3) wait = ((?A4, ?w3), Running)"
    using wait l(1)
    by (intro waiting_run [where s = "snd c1" and ts = "snd (last speech)"]) simp_all
  have t4: "recording_worker env recognize (?A3, ?w3) (wait @ (Read_frame f, now) # trail)
      = ((?A6, ?w5), Running)"
    using t4w t5 by (simp add: recording_worker_append)
  have i3: "worker_iteration env recognize (?A2, ?w2) c1 = ((?A3, ?w3), Running)"
    using wait thr(1)
    by (intro first_quiet_iteration [where ts = "snd (last speech)"]) (simp_all add: fresh_worker_def)
  have t3: "recording_worker env recognize (?A2, ?w2) (c1 # wait @ (Read_frame f, now) # trail)
      = ((?A6, ?w5), Running)"
    using i3 t4 l(1) by simp
  have t2s: "recording_worker env recognize (?A1, fresh_worker) speech = ((?A2, ?w2), Running)"
    using speech thr(2) l(1) by (intro loud_run) simp_all
  have t2: "recording_worker env recognize (?A1, fresh_worker)
      (speech @ c1 # wait @ (Read_frame f, now) # trail) = ((?A6, ?w5), Running)"
    using t2s t3 by (simp add: recording_worker_append)
  have t1l: "recording_worker env recognize (st, fresh_worker) lead = ((?A1, fresh_worker), Running)"
    using lead l by (intro idle_run_continues [where ?t0.0 = t0]) (simp_all add: fresh_worker_def)
  have t1: "recording_worker env recognize (st, fresh_worker)
      (lead @ speech @ c1 # wait @ (Read_frame f, now) # trail) = ((?A6, ?w5), Running)"
    using t1l t2 by (simp add: recording_worker_append)
  from t1 run have r: "st' = ?A6" "w' = ?w5" "status = Running" by simp_all
  have fr: "audio_frames (?A4\<lparr> audio_frames := audio_frames ?A4 @ [f] \<rparr>)
      = frames_of lead @ frames_of speech @ frames_of (c1 # wait) @ [f]"
    using l(2) by (simp add: frames_of_Cons1 [of c1 wait])
  have em: "emitted (call_log ?P)
      = emitted (call_log st0) @ [frames_of lead @ frames_of speech @ frames_of (c1 # wait) @ [f]]"
    unfolding process_calls(2) fr using len avail l(4) by simp
  show ?thesis
    using r em l(1) by (simp add: process_keeps)
qed

lemma frames_loud: "is_loud 500 speech_frame" "\<not> is_loud 500 silent_frame"
  by (simp_all add: is_loud_def volume_def abs16_def speech_frame_def silent_frame_def)

lemmas audio_defs = worker_iteration_def process_recorded_audio_def stop_listening_def
  start_listening_def init_audio_def app_audio_env_def fresh_worker_def Let_def

lemmas scenario_defs = scenario_def leading_silence_def speech_second_def first_silence_def
  waiting_silence_def trailing_rest_def reads_def listening_handler_def text_recognizer_def

text \<open>
  Claim C2 as stated fails in that scenario: the one segment emitted has 25 frames, the 12
  of the leading silence, the 4 of the speech and 9 of the silence after it, and is not the
  4 frames of the speech.
\<close>

theorem segment_includes_leading_silence_counterexample:
  "emitted (call_log (fst (fst (recording_worker app_audio_env text_recognizer
       (listening_handler, fresh_worker) scenario))))
     = [replicate 12 silent_frame @ replicate 4 speech_frame @ replicate 9 silent_frame]
   \<and> frames_of speech_second = replicate 4 speech_frame
   \<and> replicate 12 silent_frame @ replicate 4 speech_frame @ replicate 9 silent_frame
       \<noteq> replicate 4 speech_frame"
proof -
  have "emitted (call_log (fst (fst (recording_worker app_audio_env text_recognizer
       (listening_handler, fresh_worker) scenario))))
     = [replicate 12 silent_frame @ replicate 4 speech_frame @ replicate 9 silent_frame]"
    by (simp add: scenario_defs audio_defs frames_loud numeral_eq_Suc)
  moreover have "frames_of speech_second = replicate 4 speech_frame"
    by (simp add: speech_second_def reads_def numeral_eq_Suc)
  moreover have "replicate 12 silent_frame @ replicate 4 speech_frame @ replicate 9 silent_frame
       \<noteq> replicate 4 speech_frame"
    by (simp add: numeral_eq_Suc silent_frame_def speech_frame_def)
  ultimately show ?thesis by blast
qed

lemma trailing_silence_snoc:
  "trailing_silence env (xs @ [x]) =
     (if quiet_input env x then trailing_silence env xs @ [x] else [])"
  by (simp add: trailing_silence_def)

lemma trailing_silence_subset: "set (trailing_silence env xs) \<subseteq> set xs"
  using set_takeWhileD [of _ "quiet_input env" "rev xs"]
  by (auto simp add: trailing_silence_def)

lemma frame_quiet_or_loud:
  "quiet_input env (Read_frame f, now) = (\<not> is_loud (volume_threshold env) f)"
  "loud_input env (Read_frame f, now) = is_loud (volume_threshold env) f"
  by (simp_all add: quiet_input_def loud_input_def)

lemma run_snoc_running:
  assumes "recording_worker env r s (xs @ [x]) = (s', Running)"
  obtains s1 f now where "recording_worker env r s xs = (s1, Running)"
    and "x = (Read_frame f, now)"
    and "worker_iteration env r s1 (Read_frame f, now) = (s', Running)"
proof -
  obtain s1 st1 where r1: "recording_worker env r s xs = (s1, st1)"
    by (cases "recording_worker env r s xs")
  with assms have st1: "st1 = Running"
    by (cases st1) (simp_all add: recording_worker_append)
  with assms r1 have last: "recording_worker env r s1 [x] = (s', Running)"
    by (simp add: recording_worker_append)
  then have it: "worker_iteration env r s1 x = (s', Running)"
    by (auto split: if_splits prod.splits loop_status.splits)
  obtain rd now where x: "x = (rd, now)" by (cases x)
  with it obtain f where "rd = Read_frame f"
    by (cases rd) (simp_all add: worker_iteration_def)
  with that r1 st1 it x show ?thesis by simp
qed

text \<open>
  The locals of the worker after a run that is still going, read off the inputs: speech is
  pending exactly when a loud input was seen and the silence since the last one has not
  reached the threshold, and the silence is timed from the first quiet input after it.
\<close>

lemma worker_locals_of_trace:
  assumes "recording_worker env r (st0, fresh_worker) xs = ((st, w), Running)"
    and "\<forall>x\<in>set xs. snd x \<noteq> 0"
  shows "has_speech w =
       (list_ex (loud_input env) xs
        \<and> list_all (\<lambda>y. snd y - snd (hd (trailing_silence env xs)) < silence_threshold env)
            (trailing_silence env xs))
     \<and> silence_start w =
       (if has_speech w \<and> trailing_silence env xs \<noteq> []
        then Some (snd (hd (trailing_silence env xs))) else None)"
  using assms
proof (induction xs arbitrary: st w rule: rev_induct)
  case Nil
  then show ?case by (auto simp add: trailing_silence_def fresh_worker_def split: if_splits)
next
  case (snoc x xs)
  from snoc.prems(1) obtain s1 f now where r1: "recording_worker env r (st0, fresh_worker) xs = (s1, Running)"
    and x: "x = (Read_frame f, now)"
    and it: "worker_iteration env r s1 (Read_frame f, now) = ((st, w), Running)"
    by (rule run_snoc_running)
  obtain st1 w1 where s1: "s1 = (st1, w1)" by (cases s1)
  let ?T = "trailing_silence env xs"
  have nz: "\<forall>y\<in>set xs. snd y \<noteq> 0" and now: "now \<noteq> 0"
    using snoc.prems(2) x by simp_all
  from snoc.IH [OF r1 [unfolded s1] nz]
  have hs: "has_speech w1 =
       (list_ex (loud_input env) xs
        \<and> list_all (\<lambda>y. snd y - snd (hd ?T) < silence_threshold env) ?T)"
    and ss: "silence_start w1 = (if has_speech w1 \<and> ?T \<noteq> [] then Some (snd (hd ?T)) else None)"
    by simp_all
  note ic = iteration_cases [of env r st1 w1 f now]
  show ?case
  proof (cases "is_loud (volume_threshold env) f")
    case True
    with ic it s1 have "w = w1\<lparr> has_speech := True, silence_start := None \<rparr>"
      by (auto split: option.splits if_splits)
    with True show ?thesis
      by (simp add: x trailing_silence_snoc frame_quiet_or_loud)
  next
    case False
    then have q: "quiet_input env x" "\<not> loud_input env x"
      by (simp_all add: x frame_quiet_or_loud)
    have T: "trailing_silence env (xs @ [x]) = ?T @ [x]"
      using q by (simp add: trailing_silence_snoc)
    show ?thesis
    proof (cases "has_speech w1")
      case nospeech: False
      with ss have sn: "silence_start w1 = None" by simp
      with ic it s1 False nospeech have w: "w = w1"
        by (auto split: option.splits if_splits)
      have "\<not> (list_ex (loud_input env) (xs @ [x])
        \<and> list_all (\<lambda>y. snd y - snd (hd (?T @ [x])) < silence_threshold env) (?T @ [x]))"
        using hs nospeech q by (cases "?T") auto
      with w nospeech T sn show ?thesis by simp
    next
      case speech: True
      with hs have ex: "list_ex (loud_input env) xs"
        and al: "list_all (\<lambda>y. snd y - snd (hd ?T) < silence_threshold env) ?T"
        by simp_all
      show ?thesis
      proof (cases "?T = []")
        case empty: True
        with ss have s0: "silence_start w1 = None" by simp
        show ?thesis
        proof (cases "silence_threshold env \<le> 0")
          case True
          with ic it s1 False speech s0 now
          have "w = w1\<lparr> silence_start := Some now, has_speech := False, silence_start := None \<rparr>"
            by (auto split: option.splits if_splits)
          with True empty T x show ?thesis by simp
        next
          case pos: False
          with ic it s1 \<open>\<not> is_loud (volume_threshold env) f\<close> speech s0
          have "w = w1\<lparr> silence_start := Some now \<rparr>"
            by (auto split: option.splits if_splits)
          with pos empty T x speech ex show ?thesis by simp
        qed
      next
        case nonempty: False
        with ss speech have s0: "silence_start w1 = Some (snd (hd ?T))" by simp
        have "hd ?T \<in> set xs"
          using nonempty trailing_silence_subset [of env xs] hd_in_set [of ?T] by blast
        with nz have hz: "snd (hd ?T) \<noteq> 0" by simp
        have hdT: "hd (?T @ [x]) = hd ?T" using nonempty by simp
        show ?thesis
        proof (cases "silence_threshold env \<le> now - snd (hd ?T)")
          case True
          with ic it s1 False speech s0 hz
          have "w = w1\<lparr> has_speech := False, silence_start := None \<rparr>"
            by (auto split: option.splits if_splits)
          with True T x hdT show ?thesis by simp
        next
          case wait: False
          with ic it s1 \<open>\<not> is_loud (volume_threshold env) f\<close> speech s0
          have "w = w1"
            by (auto split: option.splits if_splits)
          with wait T x hdT speech ex al s0 q show ?thesis by simp
        qed
      qed
    qed
  qed
qed

lemma iteration_partition:
  assumes "worker_iteration env r (st, w) x = ((st', w'), status)"
  shows "concat (handed_off (call_log st')) @ audio_frames st'
       = concat (handed_off (call_log st)) @ audio_frames st @ frames_of [x]"
proof (cases x)
  case (Pair rd now)
  show ?thesis
  proof (cases rd)
    case Read_error
    with Pair assms show ?thesis by (simp add: worker_iteration_def)
  next
    case (Read_frame f)
    with Pair assms iteration_cases [of env r st w f now] show ?thesis
      by (auto simp add: process_calls process_keeps stop_listening_keeps_emitted
            split: option.splits if_splits)
  qed
qed

lemma running_reads_all:
  "recording_worker env r (st, w) xs = ((st', w'), Running) \<Longrightarrow>
   concat (handed_off (call_log st')) @ audio_frames st'
       = concat (handed_off (call_log st)) @ audio_frames st @ frames_of xs"
proof (induction xs arbitrary: st w)
  case Nil
  then show ?case by (simp split: if_splits)
next
  case (Cons x xs)
  from Cons.prems have l: "is_listening st" by (auto split: if_splits)
  obtain st1 w1 status1 where it: "worker_iteration env r (st, w) x = ((st1, w1), status1)"
    by (metis surj_pair)
  with Cons.prems l have s1: "status1 = Running"
    by (cases status1) simp_all
  with it l Cons.prems have "recording_worker env r (st1, w1) xs = ((st', w'), Running)"
    by simp
  from Cons.IH [OF this] iteration_partition [OF it] show ?case
    by (simp add: frames_of_Cons1 [of x xs])
qed

text \<open>
  Claim C4, as amended. Let the loop, started with fresh locals, be still running after the
  inputs \<open>xs\<close>, with clock values different from 0, and let the next read give the frame
  \<open>f\<close> at \<open>now\<close>. The pass hands the buffer with \<open>f\<close> to \<^verbatim>\<open>_process_recorded_audio\<close> exactly
  when speech was detected and silence then persisted for the silence threshold; the
  segment is emitted to the recognizer exactly when, moreover, it has at least 10 frames
  and a recognizer is available. A hand-over empties the buffer and resets \<open>has_speech\<close>;
  otherwise the frame stays in the buffer. The segments handed over so far followed by the
  buffer are the frames read, each once and in order.
\<close>

theorem emission_iff_silence_confirmed:
  assumes run: "recording_worker env recognize (st0, fresh_worker) xs = ((st, w), Running)"
    and nz: "\<forall>x\<in>set xs. snd x \<noteq> 0" "now \<noteq> 0"
    and it: "worker_iteration env recognize (st, w) (Read_frame f, now) = ((st', w'), status)"
  shows "handed_off (call_log st') = handed_off (call_log st) @
           (if silence_confirmed env xs (Read_frame f, now) then [audio_frames st @ [f]] else [])
    \<and> emitted (call_log st') = emitted (call_log st) @
           (if silence_confirmed env xs (Read_frame f, now) \<and> 10 \<le> length (audio_frames st @ [f])
               \<and> recognizer_available env
            then [audio_frames st @ [f]] else [])
    \<and> (emitted (call_log st') \<noteq> emitted (call_log st))
         = (silence_confirmed env xs (Read_frame f, now) \<and> 10 \<le> length (audio_frames st @ [f])
             \<and> recognizer_available env)
    \<and> audio_frames st' =
         (if silence_confirmed env xs (Read_frame f, now) then [] else audio_frames st @ [f])
    \<and> has_speech w' =
         (if silence_confirmed env xs (Read_frame f, now) then False
          else (is_loud (volume_threshold env) f \<or> has_speech w))
    \<and> concat (handed_off (call_log st')) @ audio_frames st'
         = concat (handed_off (call_log st0)) @ audio_frames st0 @ frames_of xs @ [f]"
proof -
  let ?T = "trailing_silence env xs"
  let ?w1 = "if has_speech w \<and> silence_start w = None then w\<lparr> silence_start := Some now \<rparr> else w"
  let ?confirm = "\<not> is_loud (volume_threshold env) f \<and> has_speech w
      \<and> (\<exists>ss. silence_start ?w1 = Some ss \<and> ss \<noteq> 0 \<and> silence_threshold env \<le> now - ss)"
  let ?st1 = "st\<lparr> audio_frames := audio_frames st @ [f] \<rparr>"
  from worker_locals_of_trace [OF run nz(1)]
  have hs: "has_speech w =
       (list_ex (loud_input env) xs
        \<and> list_all (\<lambda>y. snd y - snd (hd ?T) < silence_threshold env) ?T)"
    and ss: "silence_start w = (if has_speech w \<and> ?T \<noteq> [] then Some (snd (hd ?T)) else None)"
    by simp_all
  have hz: "?T \<noteq> [] \<Longrightarrow> snd (hd ?T) \<noteq> 0"
    using nz(1) trailing_silence_subset [of env xs] hd_in_set [of ?T] by blast
  have c: "?confirm = silence_confirmed env xs (Read_frame f, now)"
  proof (cases "?T = []")
    case True
    with hs ss nz(2) show ?thesis
      by (auto simp add: silence_confirmed_def frame_quiet_or_loud Let_def)
  next
    case False
    with hs ss hz show ?thesis
      by (auto simp add: silence_confirmed_def frame_quiet_or_loud Let_def)
  qed
  note ic = iteration_cases [of env recognize st w f now]
  have part: "concat (handed_off (call_log st')) @ audio_frames st'
         = concat (handed_off (call_log st0)) @ audio_frames st0 @ frames_of xs @ [f]"
    using iteration_partition [OF it] running_reads_all [OF run] by simp
  show ?thesis
  proof (cases ?confirm)
    case True
    with ic it have r: "st' = (if inactivity_timeout env < 0
          then fst (stop_listening env ((process_recorded_audio env recognize ?st1)
                  \<lparr> audio_frames := [], last_speech_time := Some now \<rparr>))
          else (process_recorded_audio env recognize ?st1)
                  \<lparr> audio_frames := [], last_speech_time := Some now \<rparr>)"
      and w: "w' = ?w1\<lparr> has_speech := False, silence_start := None \<rparr>"
      by (auto split: if_splits)
    from r have "handed_off (call_log st') = handed_off (call_log st) @ [audio_frames st @ [f]]"
      and "emitted (call_log st') = emitted (call_log st) @
           (if 10 \<le> length (audio_frames st @ [f]) \<and> recognizer_available env
            then [audio_frames st @ [f]] else [])"
      and "audio_frames st' = []"
      by (simp_all add: stop_listening_keeps_emitted process_calls split: if_splits)
    with True c w part show ?thesis by simp
  next
    case False
    with ic it have "handed_off (call_log st') = handed_off (call_log st)"
      and "emitted (call_log st') = emitted (call_log st)"
      and "audio_frames st' = audio_frames st @ [f]"
      and "has_speech w' = (is_loud (volume_threshold env) f \<or> has_speech w)"
      by (auto simp add: stop_listening_keeps_emitted split: option.splits if_splits)
    with False c part show ?thesis by simp
  qed
qed

lemma utterance_prefix_run:
  "recording_worker app_audio_env r (listening_handler, fresh_worker) utterance_prefix
     = ((waiting_handler, waiting_worker), Running)"
  by (simp add: utterance_prefix_def leading_silence_def speech_second_def first_silence_def
        waiting_silence_def reads_def listening_handler_def waiting_handler_def
        waiting_worker_def prefix_frames_def audio_defs frames_loud numeral_eq_Suc)

lemma utterance_prefix_nonzero: "\<forall>x\<in>set utterance_prefix. snd x \<noteq> 0"
  by (simp add: utterance_prefix_def leading_silence_def speech_second_def first_silence_def
        waiting_silence_def reads_def)

lemma listening_handler_started:
  "start_listening app_audio_env init_audio Device_ok 100 = (listening_handler, Started)"
  by (simp add: listening_handler_def start_listening_def app_audio_env_def init_audio_def)

text \<open>
  The utterance of the scenario: after 24 reads the loop waits for the silence to reach
  2 s, and the read at 106.25 emits the 25 frames.
\<close>

theorem emission_iff_silence_confirmed_witness:
  "recording_worker app_audio_env text_recognizer (listening_handler, fresh_worker) utterance_prefix
     = ((waiting_handler, waiting_worker), Running)
   \<and> silence_confirmed app_audio_env utterance_prefix (Read_frame silent_frame, 100 + 25 / 4)
   \<and> emitted (call_log (fst (fst (worker_iteration app_audio_env text_recognizer
        (waiting_handler, waiting_worker) (Read_frame silent_frame, 100 + 25 / 4)))))
       = [prefix_frames @ [silent_frame]]
   \<and> audio_frames (fst (fst (worker_iteration app_audio_env text_recognizer
        (waiting_handler, waiting_worker) (Read_frame silent_frame, 100 + 25 / 4)))) = []"
proof -
  obtain st' w' status where it: "worker_iteration app_audio_env text_recognizer
        (waiting_handler, waiting_worker) (Read_frame silent_frame, 100 + 25 / 4) = ((st', w'), status)"
    by (metis surj_pair)
  have c: "silence_confirmed app_audio_env utterance_prefix (Read_frame silent_frame, 100 + 25 / 4)"
    by (simp add: silence_confirmed_def trailing_silence_def quiet_input_def loud_input_def
          utterance_prefix_def leading_silence_def speech_second_def first_silence_def
          waiting_silence_def reads_def app_audio_env_def frames_loud)
  have n: "(100 + 25 / 4 :: real) \<noteq> 0" by simp
  have l: "10 \<le> length (audio_frames waiting_handler @ [silent_frame])"
    "recognizer_available app_audio_env" "emitted (call_log waiting_handler) = []"
    "audio_frames waiting_handler = prefix_frames"
    by (simp_all add: waiting_handler_def prefix_frames_def app_audio_env_def
          listening_handler_def start_listening_def init_audio_def)
  from emission_iff_silence_confirmed [OF utterance_prefix_run utterance_prefix_nonzero n it]
    c l it utterance_prefix_run [of text_recognizer]
  show ?thesis by simp
qed

text \<open>
  Claim C4 as stated fails for a short segment. At two reads a second, two loud frames are
  followed by five quiet ones; at the fifth the silence has lasted 2 s. The loop is
  running, the 7 frames are dropped from the buffer and nothing is emitted.
\<close>

theorem short_segment_discarded_counterexample:
  "silence_confirmed app_audio_env short_utterance (Read_frame silent_frame, 100 + 14 / 4)
   \<and> snd (recording_worker app_audio_env text_recognizer (listening_handler, fresh_worker)
        (short_utterance @ [(Read_frame silent_frame, 100 + 14 / 4)])) = Running
   \<and> emitted (call_log (fst (fst (recording_worker app_audio_env text_recognizer
        (listening_handler, fresh_worker)
        (short_utterance @ [(Read_frame silent_frame, 100 + 14 / 4)]))))) = []
   \<and> audio_frames (fst (fst (recording_worker app_audio_env text_recognizer
        (listening_handler, fresh_worker)
        (short_utterance @ [(Read_frame silent_frame, 100 + 14 / 4)])))) = []"
proof -
  have "silence_confirmed app_audio_env short_utterance (Read_frame silent_frame, 100 + 14 / 4)"
    by (simp add: silence_confirmed_def trailing_silence_def quiet_input_def loud_input_def
          short_utterance_def reads_def app_audio_env_def frames_loud)
  moreover have "recording_worker app_audio_env text_recognizer (listening_handler, fresh_worker)
        (short_utterance @ [(Read_frame silent_frame, 100 + 14 / 4)])
      = ((listening_handler\<lparr> audio_frames := [], last_speech_time := Some (100 + 14 / 4),
            call_log := [Process (replicate 2 speech_frame @ replicate 5 silent_frame)] \<rparr>,
          fresh_worker), Running)"
    by (simp add: short_utterance_def reads_def listening_handler_def text_recognizer_def
          audio_defs frames_loud numeral_eq_Suc)
  ultimately show ?thesis by simp
qed

text \<open>
  The utterance of the scenario below, with a recognizer that fails with a request error.
\<close>

theorem recognition_failure_contained_witness:
  "is_listening waiting_handler
   \<and> failing_recognizer (audio_frames waiting_handler @ [silent_frame]) = Request_error
   \<and> snd (worker_iteration app_audio_env failing_recognizer (waiting_handler, waiting_worker)
        (Read_frame silent_frame, 100 + 25 / 4)) = Running
   \<and> is_listening (fst (fst (worker_iteration app_audio_env failing_recognizer
        (waiting_handler, waiting_worker) (Read_frame silent_frame, 100 + 25 / 4))))
   \<and> emitted (call_log (fst (fst (worker_iteration app_audio_env failing_recognizer
        (waiting_handler, waiting_worker) (Read_frame silent_frame, 100 + 25 / 4)))))
       = [prefix_frames @ [silent_frame]]
   \<and> recognized_text_queue (fst (fst (worker_iteration app_audio_env failing_recognizer
        (waiting_handler, waiting_worker) (Read_frame silent_frame, 100 + 25 / 4)))) = []"
proof -
  obtain st' w' status where it: "worker_iteration app_audio_env failing_recognizer
        (waiting_handler, waiting_worker) (Read_frame silent_frame, 100 + 25 / 4) = ((st', w'), status)"
    by (metis surj_pair)
  have h: "is_listening waiting_handler" "0 \<le> inactivity_timeout app_audio_env"
    "emitted (call_log waiting_handler) = []" "recognized_text_queue waiting_handler = []"
    "audio_frames waiting_handler = prefix_frames"
    by (simp_all add: waiting_handler_def app_audio_env_def
          listening_handler_def start_listening_def init_audio_def)
  have e: "emitted (call_log st') \<noteq> emitted (call_log waiting_handler)"
    using it
    by (auto simp add: waiting_handler_def waiting_worker_def prefix_frames_def
          listening_handler_def failing_recognizer_def audio_defs frames_loud)
  have f: "failing_recognizer (audio_frames waiting_handler @ [silent_frame]) = Unknown_value
         \<or> failing_recognizer (audio_frames waiting_handler @ [silent_frame]) = Request_error
         \<or> failing_recognizer (audio_frames waiting_handler @ [silent_frame]) = Other_exception"
    by (simp add: failing_recognizer_def)
  from recognition_failure_contained [OF h(1,2) it e f, of "[]"] h it
  show ?thesis by (simp add: failing_recognizer_def)
qed

text \<open>
  Quiet reads 1 s, 3 s and 5.25 s after the start: the third exceeds the timeout of 5 s.
\<close>

theorem inactivity_stops_session_once_witness:
  "start_listening app_audio_env init_audio Device_ok 100 = (listening_handler, Started)
   \<and> snd (recording_worker app_audio_env text_recognizer (listening_handler, fresh_worker)
        (idle_reads @ (Read_frame silent_frame, 100 + 21 / 4) # reads silent_frame [22])) = Exited
   \<and> \<not> is_listening (fst (fst (recording_worker app_audio_env text_recognizer
        (listening_handler, fresh_worker)
        (idle_reads @ (Read_frame silent_frame, 100 + 21 / 4) # reads silent_frame [22]))))
   \<and> call_log (fst (fst (recording_worker app_audio_env text_recognizer
        (listening_handler, fresh_worker)
        (idle_reads @ (Read_frame silent_frame, 100 + 21 / 4) # reads silent_frame [22]))))
       = [Stop_stream, Close_stream, Terminate_pyaudio]"
proof -
  obtain st' w' status where run: "recording_worker app_audio_env text_recognizer
        (listening_handler, fresh_worker)
        (idle_reads @ (Read_frame silent_frame, 100 + 21 / 4) # reads silent_frame [22])
      = ((st', w'), status)"
    by (metis surj_pair)
  have h:
    "\<forall>x\<in>set (idle_reads @ [(Read_frame silent_frame, 100 + 21 / 4)]). quiet_input app_audio_env x"
    "inactivity_timeout app_audio_env < snd (Read_frame silent_frame, 100 + 21 / 4 :: real) - 100"
    by (simp_all add: idle_reads_def reads_def quiet_input_def app_audio_env_def frames_loud)
  from inactivity_stops_session_once [OF listening_handler_started h run] run
    listening_handler_started
  show ?thesis by (simp add: init_audio_def app_audio_env_def)
qed

text \<open>
  Claim C5 as stated fails when \<^verbatim>\<open>stop_stream\<close> raises: after the same reads the loop has
  exited and \<open>is_listening\<close> is false, but the only device call made is the stop of the
  stream, and the stream and the PyAudio instance are still held.
\<close>

theorem raising_stop_keeps_devices_counterexample:
  "snd (recording_worker faulty_audio_env text_recognizer
        (fst (start_listening faulty_audio_env init_audio Device_ok 100), fresh_worker)
        (idle_reads @ (Read_frame silent_frame, 100 + 21 / 4) # reads silent_frame [22])) = Exited
   \<and> \<not> is_listening (fst (fst (recording_worker faulty_audio_env text_recognizer
        (fst (start_listening faulty_audio_env init_audio Device_ok 100), fresh_worker)
        (idle_reads @ (Read_frame silent_frame, 100 + 21 / 4) # reads silent_frame [22]))))
   \<and> audio_stream (fst (fst (recording_worker faulty_audio_env text_recognizer
        (fst (start_listening faulty_audio_env init_audio Device_ok 100), fresh_worker)
        (idle_reads @ (Read_frame silent_frame, 100 + 21 / 4) # reads silent_frame [22]))))
   \<and> pyaudio_instance (fst (fst (recording_worker faulty_audio_env text_recognizer
        (fst (start_listening faulty_audio_env init_audio Device_ok 100), fresh_worker)
        (idle_reads @ (Read_frame silent_frame, 100 + 21 / 4) # reads silent_frame [22]))))
   \<and> call_log (fst (fst (recording_worker faulty_audio_env text_recognizer
        (fst (start_listening faulty_audio_env init_audio Device_ok 100), fresh_worker)
        (idle_reads @ (Read_frame silent_frame, 100 + 21 / 4) # reads silent_frame [22]))))
       = [Stop_stream]"
proof -
  have "recording_worker faulty_audio_env text_recognizer
        (fst (start_listening faulty_audio_env init_audio Device_ok 100), fresh_worker)
        (idle_reads @ (Read_frame silent_frame, 100 + 21 / 4) # reads silent_frame [22])
     = ((init_audio\<lparr> is_listening := False, audio_stream := True, pyaudio_instance := True,
            audio_frames := replicate 3 silent_frame, last_speech_time := Some 100,
            call_log := [Stop_stream] \<rparr>, fresh_worker), Exited)"
    by (simp add: faulty_audio_env_def idle_reads_def reads_def audio_defs frames_loud
          numeral_eq_Suc)
  then show ?thesis by (simp add: init_audio_def)
qed

text \<open>
  The scenario at four reads a second from a start at time 100: silence until 103, speech
  until 104, silence until 106.5. The silence is confirmed at 106.25.
\<close>

theorem segment_of_one_utterance_witness:
  "start_listening app_audio_env init_audio Device_ok 100 = (listening_handler, Started)
   \<and> snd (recording_worker app_audio_env text_recognizer (listening_handler, fresh_worker) scenario)
       = Running
   \<and> is_listening (fst (fst (recording_worker app_audio_env text_recognizer
        (listening_handler, fresh_worker) scenario)))
   \<and> emitted (call_log (fst (fst (recording_worker app_audio_env text_recognizer
        (listening_handler, fresh_worker) scenario))))
       = [frames_of leading_silence @ frames_of speech_second
            @ frames_of (first_silence # waiting_silence) @ [silent_frame]]
   \<and> audio_frames (fst (fst (recording_worker app_audio_env text_recognizer
        (listening_handler, fresh_worker) scenario))) = frames_of trailing_rest"
proof -
  obtain st' w' status where run: "recording_worker app_audio_env text_recognizer
        (listening_handler, fresh_worker)
        (leading_silence @ speech_second @ first_silence # waiting_silence
           @ (Read_frame silent_frame, 100 + 25 / 4) # trailing_rest)
      = ((st', w'), status)"
    by (metis surj_pair)
  have thr: "0 < silence_threshold app_audio_env" "0 \<le> inactivity_timeout app_audio_env"
    by (simp_all add: app_audio_env_def)
  have lead: "\<forall>x\<in>set leading_silence. quiet_input app_audio_env x
      \<and> snd x - 100 \<le> inactivity_timeout app_audio_env"
    by (simp add: leading_silence_def reads_def quiet_input_def app_audio_env_def frames_loud)
  have speech: "speech_second \<noteq> []" "\<forall>x\<in>set speech_second. loud_input app_audio_env x"
    by (simp_all add: speech_second_def reads_def loud_input_def app_audio_env_def frames_loud)
  have wait: "\<forall>x\<in>set (first_silence # waiting_silence). quiet_input app_audio_env x
                 \<and> snd x - snd first_silence < silence_threshold app_audio_env
                 \<and> snd x - snd (last speech_second) \<le> inactivity_timeout app_audio_env"
    by (simp add: first_silence_def waiting_silence_def speech_second_def reads_def
          quiet_input_def app_audio_env_def frames_loud)
  have nz: "snd first_silence \<noteq> 0" by (simp add: first_silence_def)
  have confirm: "\<not> is_loud (volume_threshold app_audio_env) silent_frame"
    "silence_threshold app_audio_env \<le> 100 + 25 / 4 - snd first_silence"
    by (simp_all add: first_silence_def app_audio_env_def frames_loud)
  have trail: "\<forall>x\<in>set trailing_rest. quiet_input app_audio_env x
      \<and> snd x - (100 + 25 / 4) \<le> inactivity_timeout app_audio_env"
    by (simp add: trailing_rest_def reads_def quiet_input_def app_audio_env_def frames_loud)
  have len: "10 \<le> length (frames_of leading_silence @ frames_of speech_second
      @ frames_of (first_silence # waiting_silence) @ [silent_frame])"
    by (simp add: leading_silence_def speech_second_def first_silence_def waiting_silence_def
          reads_def)
  from segment_of_one_utterance [OF listening_handler_started thr lead speech wait nz confirm
      trail len run] run listening_handler_started
  show ?thesis by (simp add: scenario_def init_audio_def)
qed

end
